theory Spec2Isabelle
  imports Main "HOL-Library.Word" "HOL-Library.List_Lexorder" "HOL-Library.Sublist"
begin

unbundle bit_operations_syntax

section \<open>The reverse-writing protobuf encoder of upb/encode.c\<close>

text \<open>
  The encoder writes its output backwards into a growable buffer.  This theory embeds
  the functions of \<^verbatim>\<open>upb/encode.c\<close> one by one.  Conventions:
  \<^item> \<^verbatim>\<open>size_t\<close> quantities (buffer sizes, lengths, pointer differences) are \<open>nat\<close>; an
    allocation of \<open>2 ^ 63\<close> bytes or more cannot exist, so no \<^verbatim>\<open>size_t\<close> computation of
    the encoder wraps around.  Values that are encoded (\<^verbatim>\<open>uint64_t\<close>, \<^verbatim>\<open>uint32_t\<close>,
    \<^verbatim>\<open>int32_t\<close>, ...) are words of their width.
  \<^item> A pointer into the output buffer is its offset from \<^verbatim>\<open>ctx->buf\<close>; the null buffer
    the encoder starts with is the empty allocation, with offset 0.
  \<^item> \<^verbatim>\<open>encode_err\<close> (a \<^verbatim>\<open>longjmp\<close> to the top-level entry) is the \<open>Inl\<close> branch of a sum.
\<close>

subsection \<open>Errors and results\<close>

type_synonym byte = "8 word"
type_synonym u32 = "32 word"
type_synonym u64 = "64 word"

text \<open>
  Both calls sites of \<^verbatim>\<open>encode_err\<close> do the same \<^verbatim>\<open>longjmp(err, 1)\<close>; the model records
  which site jumped.  \<open>Undefined\<close> is no error of the encoder: it marks an execution the
  C source gives no meaning to (\<^verbatim>\<open>UPB_UNREACHABLE\<close>, a failed \<^verbatim>\<open>UPB_ASSERT\<close>, a slot
  read at a type it does not hold, a dangling layout index).
\<close>

datatype error = OutOfMemory | MaxDepthExceeded | Undefined

definition bind :: "error + 'a \<Rightarrow> ('a \<Rightarrow> error + 'b) \<Rightarrow> error + 'b" where
  "bind m f = (case m of Inl x \<Rightarrow> Inl x | Inr a \<Rightarrow> f a)"

subsection \<open>The allocator\<close>

text \<open>
  Modelled from the spec: \<^verbatim>\<open>upb_malloc\<close> and the arena behind it are not under src/.
  The spec only says that an allocation may fail (``an arena that fails the k-th
  allocation''), so the allocator is a counter of the calls made and an arbitrary
  predicate telling whether call number \<open>k\<close>, asking for \<open>n\<close> bytes, is granted.
\<close>

record upb_alloc =
  calls :: nat
  grant :: "nat \<Rightarrow> nat \<Rightarrow> bool"

definition upb_malloc :: "upb_alloc \<Rightarrow> nat \<Rightarrow> upb_alloc option" where
  "upb_malloc a n = (if grant a (calls a) n then Some (a\<lparr>calls := calls a + 1\<rparr>) else None)"

subsection \<open>Encoder state\<close>

text \<open>
  \<^verbatim>\<open>upb_encstate\<close> is a write cursor and a pointer to the shared \<^verbatim>\<open>upb_context\<close>; every
  function takes the cursor by value and returns the new one, so the model keeps both in
  one record that is passed in and returned.  \<open>buf\<close> is the content of the allocation
  \<^verbatim>\<open>[ctx->buf, ctx->limit)\<close>, so \<^verbatim>\<open>ctx->limit - ctx->buf\<close> is its length.  A cell is \<open>None\<close>
  while its content is indeterminate (fresh from \<^verbatim>\<open>upb_malloc\<close>, or copied from the
  uninitialised part of a stack array).  The map sorter of the context is scratch space
  of the (absent) map implementation and is not represented.
\<close>

record upb_encstate =
  ptr :: nat
  buf :: "byte option list"
  alloc :: upb_alloc
  options :: u32
  depth :: int

text \<open>The bytes written so far: \<^verbatim>\<open>[e->ptr, ctx->limit)\<close>.\<close>

definition written :: "upb_encstate \<Rightarrow> byte option list" where
  "written e = drop (ptr e) (buf e)"

text \<open>\<^verbatim>\<open>memcpy(dst, src, n)\<close> into the buffer at offset \<open>pos\<close>.\<close>

definition memcpy :: "byte option list \<Rightarrow> nat \<Rightarrow> byte option list \<Rightarrow> byte option list" where
  "memcpy b pos src = take pos b @ src @ drop (pos + length src) b"

subsection \<open>Buffer manager\<close>

partial_function (option) roundup_loop :: "nat \<Rightarrow> nat \<Rightarrow> nat option" where
  "roundup_loop ret bytes = (if ret < bytes then roundup_loop (ret * 2) bytes else Some ret)"

definition upb_roundup_pow2 :: "nat \<Rightarrow> nat option" where
  "upb_roundup_pow2 bytes = roundup_loop 128 bytes"

definition encode_growbuffer :: "upb_encstate \<Rightarrow> nat \<Rightarrow> error + upb_encstate" where
  "encode_growbuffer e bytes =
     (let cur_size = length (buf e) - ptr e in
      case upb_roundup_pow2 (bytes + cur_size) of
        None \<Rightarrow> Inl Undefined
      | Some new_size \<Rightarrow>
         (case upb_malloc (alloc e) new_size of
            None \<Rightarrow> Inl OutOfMemory
          | Some a \<Rightarrow>
              let new_buf = replicate new_size None;
                  new_buf = (if cur_size > 0
                             then memcpy new_buf (new_size - cur_size) (drop (ptr e) (buf e))
                             else new_buf)
              in Inr (e\<lparr>ptr := new_size - cur_size - bytes, buf := new_buf, alloc := a\<rparr>)))"

definition encode_reserve :: "upb_encstate \<Rightarrow> nat \<Rightarrow> error + upb_encstate" where
  "encode_reserve e bytes =
     (if ptr e < bytes then encode_growbuffer e bytes
      else Inr (e\<lparr>ptr := ptr e - bytes\<rparr>))"

definition encode_bytes :: "upb_encstate \<Rightarrow> byte option list \<Rightarrow> error + upb_encstate" where
  "encode_bytes e data =
     (if length data = 0 then Inr e
      else bind (encode_reserve e (length data))
             (\<lambda>e. Inr (e\<lparr>buf := memcpy (buf e) (ptr e) data\<rparr>)))"

subsection \<open>Primitive emitters\<close>

text \<open>
  \<^verbatim>\<open>encode_varint64\<close> stores bytes through \<^verbatim>\<open>*buf++\<close> and returns the advanced pointer;
  the model returns the bytes stored, in the order stored.
\<close>

function encode_varint64 :: "u64 \<Rightarrow> byte list" where
  "encode_varint64 val =
     (if 127 < val then ucast (val OR 0x80) # encode_varint64 (drop_bit 7 val)
      else [ucast val])"
  by pat_completeness auto
termination
proof (relation "measure unat")
  fix val :: u64
  assume "127 < val"
  then have "0 < unat val"
    by (simp add: word_less_nat_alt)
  then have "unat val div 2 ^ 7 < unat val"
    by (intro div_less_dividend) simp_all
  then show "(drop_bit 7 val, val) \<in> measure unat"
    by (simp add: drop_bit_eq_div unat_div)
qed simp

declare encode_varint64.simps [simp del]

definition encode_zz32 :: "u32 \<Rightarrow> u32" where
  "encode_zz32 n = push_bit 1 n XOR signed_drop_bit 31 n"

definition encode_zz64 :: "u64 \<Rightarrow> u64" where
  "encode_zz64 n = push_bit 1 n XOR signed_drop_bit 63 n"

text \<open>
  \<^verbatim>\<open>encode_longvarint\<close>: the varint is built at offset 16 of a 32-byte stack array whose
  other cells are uninitialised; the 16 bytes that end where the varint ends are
  copied into the buffer and the cursor is moved up past the ones that are not part of
  the varint.
\<close>

definition encode_longvarint :: "upb_encstate \<Rightarrow> u64 \<Rightarrow> error + upb_encstate" where
  "encode_longvarint e val =
     (let bs = encode_varint64 val;
          buffer = memcpy (replicate 32 None) 16 (map Some bs);
          end = 16 + length bs
      in bind (encode_reserve e 16)
           (\<lambda>e. Inr (e\<lparr>ptr := ptr e + 16 - (end - 16),
                       buf := memcpy (buf e) (ptr e) (take 16 (drop (end - 16) buffer))\<rparr>)))"

definition encode_varint :: "upb_encstate \<Rightarrow> u64 \<Rightarrow> error + upb_encstate" where
  "encode_varint e val =
     (if val < 128 \<and> ptr e \<noteq> 0
      then Inr (e\<lparr>ptr := ptr e - 1, buf := (buf e)[ptr e - 1 := Some (ucast val)]\<rparr>)
      else encode_longvarint e val)"

definition encode_tag :: "upb_encstate \<Rightarrow> u32 \<Rightarrow> u32 \<Rightarrow> error + upb_encstate" where
  "encode_tag e field_number wire_type = encode_varint e (ucast (push_bit 3 field_number OR wire_type))"



subsection \<open>Fixed-width values and the byte order of the host\<close>

datatype descriptortype =
    UPB_DESCRIPTOR_TYPE_DOUBLE | UPB_DESCRIPTOR_TYPE_FLOAT
  | UPB_DESCRIPTOR_TYPE_INT64 | UPB_DESCRIPTOR_TYPE_UINT64 | UPB_DESCRIPTOR_TYPE_INT32
  | UPB_DESCRIPTOR_TYPE_FIXED64 | UPB_DESCRIPTOR_TYPE_FIXED32 | UPB_DESCRIPTOR_TYPE_BOOL
  | UPB_DESCRIPTOR_TYPE_STRING | UPB_DESCRIPTOR_TYPE_GROUP | UPB_DESCRIPTOR_TYPE_MESSAGE
  | UPB_DESCRIPTOR_TYPE_BYTES | UPB_DESCRIPTOR_TYPE_UINT32 | UPB_DESCRIPTOR_TYPE_ENUM
  | UPB_DESCRIPTOR_TYPE_SFIXED32 | UPB_DESCRIPTOR_TYPE_SFIXED64
  | UPB_DESCRIPTOR_TYPE_SINT32 | UPB_DESCRIPTOR_TYPE_SINT64

text \<open>Wire types, with the values the wire format gives them.\<close>

definition UPB_WIRE_TYPE_VARINT :: u32 where "UPB_WIRE_TYPE_VARINT = 0"
definition UPB_WIRE_TYPE_64BIT :: u32 where "UPB_WIRE_TYPE_64BIT = 1"
definition UPB_WIRE_TYPE_DELIMITED :: u32 where "UPB_WIRE_TYPE_DELIMITED = 2"
definition UPB_WIRE_TYPE_START_GROUP :: u32 where "UPB_WIRE_TYPE_START_GROUP = 3"
definition UPB_WIRE_TYPE_END_GROUP :: u32 where "UPB_WIRE_TYPE_END_GROUP = 4"
definition UPB_WIRE_TYPE_32BIT :: u32 where "UPB_WIRE_TYPE_32BIT = 5"

text \<open>
  Modelled from the spec: the option bits are declared in \<^verbatim>\<open>upb/encode.h\<close>, which is not
  under src/.  The spec names two flags and reserves the upper 16 bits for the depth;
  the flags are taken to be the two lowest bits.
\<close>

definition UPB_ENCODE_DETERMINISTIC :: u32 where "UPB_ENCODE_DETERMINISTIC = 1"
definition UPB_ENCODE_SKIPUNKNOWN :: u32 where "UPB_ENCODE_SKIPUNKNOWN = 2"

text \<open>
  What the encoder needs to know of the machine it runs on: its byte order, and the
  layouts that layout pointers point to.  A \<^verbatim>\<open>const upb_msglayout *\<close> is an index into
  \<open>layouts\<close> (so layouts may refer to each other cyclically); an index with no layout
  is a dangling pointer.
\<close>

datatype field_mode = UPB_MODE_MAP | UPB_MODE_ARRAY | UPB_MODE_SCALAR

datatype field_rep = UPB_REP_1BYTE | UPB_REP_4BYTE | UPB_REP_8BYTE | UPB_REP_STRVIEW

datatype ext_mode = UPB_MSGEXT_NONE | UPB_MSGEXT_EXTENDABLE | UPB_MSGEXT_MSGSET

text \<open>
  Modelled from the spec: \<^verbatim>\<open>upb_msglayout_field\<close> and \<^verbatim>\<open>upb_msglayout\<close> are declared in
  \<^verbatim>\<open>upb/msg_internal.h\<close>, which is not under src/.  The fields are the ones the encoder
  reads; the \<^verbatim>\<open>mode\<close> byte is kept as the three things the spec says it bundles: the
  storage mode, the packed bit and the value representation.  \<^verbatim>\<open>field_count\<close> is the
  length of \<open>fields'\<close>.
\<close>

record upb_msglayout_field =
  number :: u32
  offset :: nat
  presence :: int
  submsg_index :: nat
  descriptortype :: descriptortype
  mode :: field_mode
  is_packed :: bool
  rep :: field_rep

record upb_msglayout =
  subs :: "nat list"
  fields' :: "upb_msglayout_field list"
  ext :: ext_mode

record host =
  big_endian :: bool
  layouts :: "nat \<Rightarrow> upb_msglayout option"

definition le_bytes32 :: "u32 \<Rightarrow> byte list" where
  "le_bytes32 v = [ucast v, ucast (drop_bit 8 v), ucast (drop_bit 16 v), ucast (drop_bit 24 v)]"

definition le_bytes64 :: "u64 \<Rightarrow> byte list" where
  "le_bytes64 v = [ucast v, ucast (drop_bit 8 v), ucast (drop_bit 16 v), ucast (drop_bit 24 v),
     ucast (drop_bit 32 v), ucast (drop_bit 40 v), ucast (drop_bit 48 v), ucast (drop_bit 56 v)]"

text \<open>The bytes of a 4-byte or 8-byte object as they lie in the memory of the host.\<close>

definition mem_bytes32 :: "host \<Rightarrow> u32 \<Rightarrow> byte list" where
  "mem_bytes32 h v = (if big_endian h then rev (le_bytes32 v) else le_bytes32 v)"

definition mem_bytes64 :: "host \<Rightarrow> u64 \<Rightarrow> byte list" where
  "mem_bytes64 h v = (if big_endian h then rev (le_bytes64 v) else le_bytes64 v)"

text \<open>
  Modelled from the spec: \<^verbatim>\<open>_upb_be_swap32\<close> and \<^verbatim>\<open>_upb_be_swap64\<close> are declared in
  \<^verbatim>\<open>upb/upb.h\<close>, which is not under src/: ``byte-swap to little-endian on big-endian
  hosts''.
\<close>

definition upb_be_swap32 :: "host \<Rightarrow> u32 \<Rightarrow> u32" where
  "upb_be_swap32 h val =
     (if big_endian h
      then push_bit 24 (take_bit 8 val) OR push_bit 16 (take_bit 8 (drop_bit 8 val))
           OR push_bit 8 (take_bit 8 (drop_bit 16 val)) OR drop_bit 24 val
      else val)"

definition upb_be_swap64 :: "host \<Rightarrow> u64 \<Rightarrow> u64" where
  "upb_be_swap64 h val =
     (if big_endian h
      then push_bit 32 (ucast (upb_be_swap32 h (ucast val)))
           OR ucast (upb_be_swap32 h (ucast (drop_bit 32 val)))
      else val)"

definition encode_fixed64 :: "host \<Rightarrow> upb_encstate \<Rightarrow> u64 \<Rightarrow> error + upb_encstate" where
  "encode_fixed64 h e val =
     (let val = upb_be_swap64 h val in encode_bytes e (map Some (mem_bytes64 h val)))"

definition encode_fixed32 :: "host \<Rightarrow> upb_encstate \<Rightarrow> u32 \<Rightarrow> error + upb_encstate" where
  "encode_fixed32 h e val =
     (let val = upb_be_swap32 h val in encode_bytes e (map Some (mem_bytes32 h val)))"

text \<open>
  A \<^verbatim>\<open>double\<close> or \<^verbatim>\<open>float\<close> is held as the bits of its object representation, which is
  all \<^verbatim>\<open>encode_double\<close> and \<^verbatim>\<open>encode_float\<close> use of it (they \<^verbatim>\<open>memcpy\<close> it into an
  integer of the same size).
\<close>

definition encode_double :: "host \<Rightarrow> upb_encstate \<Rightarrow> u64 \<Rightarrow> error + upb_encstate" where
  "encode_double h e d = (let u64 = d in encode_fixed64 h e u64)"

definition encode_float :: "host \<Rightarrow> upb_encstate \<Rightarrow> u32 \<Rightarrow> error + upb_encstate" where
  "encode_float h e d = (let u32 = d in encode_fixed32 h e u32)"

subsection \<open>Messages\<close>

text \<open>
  Message memory is read only at the offsets the layout names, each time at the type the
  field descriptor implies, so a message is the typed content of its slots:
  \<^item> \<open>V1\<close>, \<open>V4\<close>, \<open>V8\<close>: a 1-, 4- or 8-byte scalar (\<^verbatim>\<open>bool\<close>; 32-bit integers, \<^verbatim>\<open>float\<close>
    and oneof cases; 64-bit integers and \<^verbatim>\<open>double\<close>);
  \<^item> \<open>VStr\<close>: a \<^verbatim>\<open>upb_strview\<close>, as the bytes it views;
  \<^item> \<open>VMsg\<close>, \<open>VArr\<close>, \<open>VMap\<close>: a pointer to a sub-message, a \<^verbatim>\<open>upb_array\<close> or a
    \<^verbatim>\<open>upb_map\<close>, \<open>None\<close> for the null pointer.  An array is the list of its elements; a
    map is the list of its entries in the order the unordered iterator yields them.
  A message also has its hasbits, the blob of unknown fields (\<open>None\<close> when
  \<^verbatim>\<open>upb_msg_getunknown\<close> returns null) and its extensions in storage order.  An
  extension carries the \<^verbatim>\<open>upb_msglayout_ext\<close> it points to (a field descriptor and one
  sub-layout) and its value.  Reading a slot at a type it does not hold, or at an offset
  where there is none, is \<open>Undefined\<close>.
\<close>

datatype upb_val =
    V1 byte
  | V4 u32
  | V8 u64
  | VStr "byte list"
  | VMsg "upb_msg option"
  | VArr "upb_val list option"
  | VMap "(upb_val \<times> upb_val) list option"
and upb_msg =
  Msg (hasbits: "nat \<Rightarrow> bool") (slots: "(nat \<times> upb_val) list")
      (unknown: "byte list option") (exts: "upb_msg_ext list")
and upb_msg_ext =
  Ext (ext_field: upb_msglayout_field) (ext_sub: nat) (ext_data: upb_val)

definition get_bool :: "upb_val \<Rightarrow> error + u64" where
  "get_bool v = (case v of V1 b \<Rightarrow> if b = 0 then Inr 0 else if b = 1 then Inr 1 else Inl Undefined
                 | _ \<Rightarrow> Inl Undefined)"

definition get_u32 :: "upb_val \<Rightarrow> error + u32" where
  "get_u32 v = (case v of V4 w \<Rightarrow> Inr w | _ \<Rightarrow> Inl Undefined)"

definition get_u64 :: "upb_val \<Rightarrow> error + u64" where
  "get_u64 v = (case v of V8 w \<Rightarrow> Inr w | _ \<Rightarrow> Inl Undefined)"

definition get_strview :: "upb_val \<Rightarrow> error + byte list" where
  "get_strview v = (case v of VStr s \<Rightarrow> Inr s | _ \<Rightarrow> Inl Undefined)"

definition get_msg :: "upb_val \<Rightarrow> error + upb_msg option" where
  "get_msg v = (case v of VMsg p \<Rightarrow> Inr p | _ \<Rightarrow> Inl Undefined)"

definition get_array :: "upb_val \<Rightarrow> error + upb_val list option" where
  "get_array v = (case v of VArr p \<Rightarrow> Inr p | _ \<Rightarrow> Inl Undefined)"

definition get_map :: "upb_val \<Rightarrow> error + (upb_val \<times> upb_val) list option" where
  "get_map v = (case v of VMap p \<Rightarrow> Inr p | _ \<Rightarrow> Inl Undefined)"

text \<open>\<^verbatim>\<open>UPB_PTR_AT(msg, offset, type)\<close>: the slot at an offset.\<close>

definition UPB_PTR_AT :: "(nat \<times> upb_val) list \<Rightarrow> nat \<Rightarrow> error + upb_val" where
  "UPB_PTR_AT msg ofs = (case map_of msg ofs of None \<Rightarrow> Inl Undefined | Some v \<Rightarrow> Inr v)"

text \<open>\<^verbatim>\<open>subs[i].submsg\<close>: an index past the table is an out-of-bounds read.\<close>

definition sub_at :: "nat list \<Rightarrow> nat \<Rightarrow> error + nat" where
  "sub_at sbs i = (if i < length sbs then Inr (sbs ! i) else Inl Undefined)"

definition layout_at :: "host \<Rightarrow> nat \<Rightarrow> error + upb_msglayout" where
  "layout_at h m = (case layouts h m of None \<Rightarrow> Inl Undefined | Some l \<Rightarrow> Inr l)"

subsection \<open>Loops\<close>

text \<open>
  Every loop of the encoder runs a body over the elements of an array in sequence,
  threading the encoder state; \<^verbatim>\<open>encode_err\<close> in the body leaves the loop.
\<close>

fun for_each :: "('a \<Rightarrow> upb_encstate \<Rightarrow> error + upb_encstate) \<Rightarrow> 'a list \<Rightarrow> upb_encstate
                 \<Rightarrow> error + upb_encstate" where
  "for_each body [] e = Inr e"
| "for_each body (x # xs) e = bind (body x e) (for_each body xs)"

fun map_result :: "('a \<Rightarrow> error + 'b) \<Rightarrow> 'a list \<Rightarrow> error + 'b list" where
  "map_result f [] = Inr []"
| "map_result f (x # xs) = bind (f x) (\<lambda>y. bind (map_result f xs) (\<lambda>ys. Inr (y # ys)))"

lemma bind_cong [fundef_cong]:
  "m = m' \<Longrightarrow> (\<And>a. m' = Inr a \<Longrightarrow> f a = g a) \<Longrightarrow> bind m f = bind m' g"
  by (cases m') (simp_all add: bind_def)

lemma for_each_cong [fundef_cong]:
  "xs = ys \<Longrightarrow> e = e' \<Longrightarrow> (\<And>x s. x \<in> set ys \<Longrightarrow> body x s = body' x s)
   \<Longrightarrow> for_each body xs e = for_each body' ys e'"
proof (induction ys arbitrary: xs e e')
  case Nil
  then show ?case by simp
next
  case (Cons y ys)
  then have "for_each body ys s = for_each body' ys s" for s by simp
  with Cons.prems show ?case by (simp add: bind_def split: sum.splits)
qed


subsection \<open>Repeated fields of fixed-width elements\<close>

text \<open>
  The memory of an array of 4-byte or 8-byte elements: each element as it lies in the
  memory of the host.  An element of another size is not what the array holds.
\<close>

definition elem_mem :: "host \<Rightarrow> nat \<Rightarrow> upb_val \<Rightarrow> error + byte list" where
  "elem_mem h elem_size x =
     (case x of
        V4 w \<Rightarrow> if elem_size = 4 then Inr (mem_bytes32 h w) else Inl Undefined
      | V8 w \<Rightarrow> if elem_size = 8 then Inr (mem_bytes64 h w) else Inl Undefined
      | _ \<Rightarrow> Inl Undefined)"

definition encode_fixedarray_impl ::
  "host \<Rightarrow> upb_encstate \<Rightarrow> upb_val list \<Rightarrow> nat \<Rightarrow> u32 \<Rightarrow> error + upb_encstate" where
  "encode_fixedarray_impl h e arr elem_size tag =
     bind (map_result (elem_mem h elem_size) arr) (\<lambda>data.
       if tag \<noteq> 0
       then for_each (\<lambda>elem e. bind (encode_bytes e (map Some elem))
                                (\<lambda>e. encode_varint e (ucast tag))) (rev data) e
       else encode_bytes e (map Some (concat data)))"

subsection \<open>Scalar values as varints\<close>

text \<open>The value handed to \<^verbatim>\<open>encode_varint\<close> for each C type read from a slot.\<close>

definition val_uint64 :: "upb_val \<Rightarrow> error + u64" where
  "val_uint64 x = get_u64 x"

definition val_uint32 :: "upb_val \<Rightarrow> error + u64" where
  "val_uint32 x = bind (get_u32 x) (\<lambda>val. Inr (ucast val))"

definition val_int32 :: "upb_val \<Rightarrow> error + u64" where
  "val_int32 x = bind (get_u32 x) (\<lambda>val. Inr (scast val))"

definition val_bool :: "upb_val \<Rightarrow> error + u64" where
  "val_bool x = get_bool x"

definition val_sint32 :: "upb_val \<Rightarrow> error + u64" where
  "val_sint32 x = bind (get_u32 x) (\<lambda>val. Inr (ucast (encode_zz32 val)))"

definition val_sint64 :: "upb_val \<Rightarrow> error + u64" where
  "val_sint64 x = bind (get_u64 x) (\<lambda>val. Inr (encode_zz64 val))"

text \<open>The macro \<^verbatim>\<open>CASE(ctype, varint, UPB_WIRE_TYPE_VARINT, encodeval)\<close> of the scalar emitter.\<close>

definition CASE_varint ::
  "(upb_val \<Rightarrow> error + u64) \<Rightarrow> upb_encstate \<Rightarrow> upb_val \<Rightarrow> error + upb_encstate \<times> u32 option" where
  "CASE_varint encodeval e field_mem =
     bind (encodeval field_mem) (\<lambda>val.
     bind (encode_varint e val) (\<lambda>e. Inr (e, Some UPB_WIRE_TYPE_VARINT)))"

text \<open>The macro \<^verbatim>\<open>VARINT_CASE(ctype, encode)\<close> of the array emitter.\<close>

definition VARINT_CASE ::
  "(upb_val \<Rightarrow> error + u64) \<Rightarrow> upb_encstate \<Rightarrow> upb_val list \<Rightarrow> bool \<Rightarrow> upb_msglayout_field
   \<Rightarrow> error + upb_encstate" where
  "VARINT_CASE encode e arr packed f =
     (let tag = (if packed then 0 else push_bit 3 (number f) OR UPB_WIRE_TYPE_VARINT) in
      for_each (\<lambda>x e. bind (encode x) (\<lambda>val.
                        bind (encode_varint e val) (\<lambda>e.
                        if tag \<noteq> 0 then encode_varint e (ucast tag) else Inr e)))
        (rev arr) e)"

definition TAG :: "bool \<Rightarrow> upb_msglayout_field \<Rightarrow> u32 \<Rightarrow> u32" where
  "TAG packed f wire_type = (if packed then 0 else push_bit 3 (number f) OR wire_type)"

subsection \<open>Presence\<close>

text \<open>
  Modelled from the spec: \<^verbatim>\<open>_upb_hasbit_field\<close> and \<^verbatim>\<open>_upb_getoneofcase_field\<close> are not
  under src/.  A positive presence is a hasbit index; a negative one is the bitwise
  complement of the offset of the oneof case, a 4-byte slot.  With presence 0 the slot
  is compared with zero at the width of its representation; a pointer is as wide as
  the 4-byte or the 8-byte representation, whichever the target has.
\<close>

definition upb_hasbit_field :: "upb_msg \<Rightarrow> upb_msglayout_field \<Rightarrow> bool" where
  "upb_hasbit_field msg f = hasbits msg (nat (presence f))"

definition upb_getoneofcase_field :: "upb_msg \<Rightarrow> upb_msglayout_field \<Rightarrow> error + u32" where
  "upb_getoneofcase_field msg f = bind (UPB_PTR_AT (slots msg) (nat (- presence f - 1))) get_u32"

definition is_pointer_nonnull :: "upb_val \<Rightarrow> error + bool" where
  "is_pointer_nonnull mem =
     (case mem of VMsg p \<Rightarrow> Inr (p \<noteq> None) | VArr p \<Rightarrow> Inr (p \<noteq> None) | VMap p \<Rightarrow> Inr (p \<noteq> None)
      | _ \<Rightarrow> Inl Undefined)"

definition encode_shouldencode :: "upb_msg \<Rightarrow> nat list \<Rightarrow> upb_msglayout_field \<Rightarrow> error + bool" where
  "encode_shouldencode msg sbs f =
     (if presence f = 0 then
        bind (UPB_PTR_AT (slots msg) (offset f)) (\<lambda>mem.
          case rep f of
            UPB_REP_1BYTE \<Rightarrow> (case mem of V1 ch \<Rightarrow> Inr (ch \<noteq> 0) | _ \<Rightarrow> Inl Undefined)
          | UPB_REP_4BYTE \<Rightarrow> (case mem of V4 u32 \<Rightarrow> Inr (u32 \<noteq> 0) | _ \<Rightarrow> is_pointer_nonnull mem)
          | UPB_REP_8BYTE \<Rightarrow> (case mem of V8 u64 \<Rightarrow> Inr (u64 \<noteq> 0) | _ \<Rightarrow> is_pointer_nonnull mem)
          | UPB_REP_STRVIEW \<Rightarrow> (case mem of VStr str \<Rightarrow> Inr (length str \<noteq> 0) | _ \<Rightarrow> Inl Undefined))
      else if presence f > 0 then Inr (upb_hasbit_field msg f)
      else bind (upb_getoneofcase_field msg f) (\<lambda>c. Inr (c = number f)))"

subsection \<open>Deterministic map order\<close>

text \<open>
  Modelled from the spec: the map sorter (\<^verbatim>\<open>_upb_mapsorter_pushmap\<close>,
  \<^verbatim>\<open>_upb_sortedmap_next\<close>) is not under src/.  The spec: the entries sorted by key ``in the
  natural order of the key's wire type (lexicographic for bytes/string, numeric for
  integers, boolean false-before-true)'', iterated from last to first.  A key is
  ranked by a list of integers compared lexicographically: its bytes for a string, its
  one signed or unsigned value for a number.
\<close>

definition key_rank :: "descriptortype \<Rightarrow> upb_val \<Rightarrow> int list" where
  "key_rank t k =
     (case k of
        VStr s \<Rightarrow> map uint s
      | V1 b \<Rightarrow> [uint b]
      | V4 w \<Rightarrow> (if t \<in> {UPB_DESCRIPTOR_TYPE_UINT32, UPB_DESCRIPTOR_TYPE_FIXED32}
                 then [uint w] else [sint w])
      | V8 w \<Rightarrow> (if t \<in> {UPB_DESCRIPTOR_TYPE_UINT64, UPB_DESCRIPTOR_TYPE_FIXED64}
                 then [uint w] else [sint w])
      | _ \<Rightarrow> [])"

definition sortedmap :: "descriptortype \<Rightarrow> (upb_val \<times> upb_val) list \<Rightarrow> (upb_val \<times> upb_val) list" where
  "sortedmap t entries = rev (sort_key (\<lambda>ent. key_rank t (fst ent)) entries)"

subsection \<open>Field and message emitters\<close>

lemma UPB_PTR_AT_size:
  "UPB_PTR_AT msg ofs = Inr v \<Longrightarrow> size v < size_list (size_prod (\<lambda>_. 0) size) msg"
proof -
  assume "UPB_PTR_AT msg ofs = Inr v"
  then have "(ofs, v) \<in> set msg"
    by (auto simp: UPB_PTR_AT_def split: option.splits dest: map_of_SomeD)
  then have "size_prod (\<lambda>_. 0) size (ofs, v) \<le> size_list (size_prod (\<lambda>_. 0) size) msg"
    by (simp add: size_list_estimation')
  then show ?thesis by simp
qed

function
  encode_message_impl :: "host \<Rightarrow> upb_encstate \<Rightarrow> upb_msg \<Rightarrow> nat \<Rightarrow> error + upb_encstate \<times> nat"
  and encode_scalar_impl ::
    "host \<Rightarrow> upb_encstate \<Rightarrow> upb_val \<Rightarrow> nat list \<Rightarrow> upb_msglayout_field \<Rightarrow> error + upb_encstate"
  and encode_array_impl ::
    "host \<Rightarrow> upb_encstate \<Rightarrow> (nat \<times> upb_val) list \<Rightarrow> nat list \<Rightarrow> upb_msglayout_field
     \<Rightarrow> error + upb_encstate"
  and encode_mapentry_impl ::
    "host \<Rightarrow> upb_encstate \<Rightarrow> u32 \<Rightarrow> upb_msglayout \<Rightarrow> upb_val \<times> upb_val \<Rightarrow> error + upb_encstate"
  and encode_map_impl ::
    "host \<Rightarrow> upb_encstate \<Rightarrow> (nat \<times> upb_val) list \<Rightarrow> nat list \<Rightarrow> upb_msglayout_field
     \<Rightarrow> error + upb_encstate"
  and encode_field_impl ::
    "host \<Rightarrow> upb_encstate \<Rightarrow> (nat \<times> upb_val) list \<Rightarrow> nat list \<Rightarrow> upb_msglayout_field
     \<Rightarrow> error + upb_encstate"
  and encode_msgset_item :: "host \<Rightarrow> upb_encstate \<Rightarrow> upb_msg_ext \<Rightarrow> error + upb_encstate"
where
  "encode_scalar_impl h e field_mem sbs f =
     bind
       (case descriptortype f of
          UPB_DESCRIPTOR_TYPE_DOUBLE \<Rightarrow>
            bind (get_u64 field_mem) (\<lambda>val.
            bind (encode_double h e val) (\<lambda>e. Inr (e, Some UPB_WIRE_TYPE_64BIT)))
        | UPB_DESCRIPTOR_TYPE_FLOAT \<Rightarrow>
            bind (get_u32 field_mem) (\<lambda>val.
            bind (encode_float h e val) (\<lambda>e. Inr (e, Some UPB_WIRE_TYPE_32BIT)))
        | UPB_DESCRIPTOR_TYPE_INT64 \<Rightarrow> CASE_varint val_uint64 e field_mem
        | UPB_DESCRIPTOR_TYPE_UINT64 \<Rightarrow> CASE_varint val_uint64 e field_mem
        | UPB_DESCRIPTOR_TYPE_UINT32 \<Rightarrow> CASE_varint val_uint32 e field_mem
        | UPB_DESCRIPTOR_TYPE_INT32 \<Rightarrow> CASE_varint val_int32 e field_mem
        | UPB_DESCRIPTOR_TYPE_ENUM \<Rightarrow> CASE_varint val_int32 e field_mem
        | UPB_DESCRIPTOR_TYPE_SFIXED64 \<Rightarrow>
            bind (get_u64 field_mem) (\<lambda>val.
            bind (encode_fixed64 h e val) (\<lambda>e. Inr (e, Some UPB_WIRE_TYPE_64BIT)))
        | UPB_DESCRIPTOR_TYPE_FIXED64 \<Rightarrow>
            bind (get_u64 field_mem) (\<lambda>val.
            bind (encode_fixed64 h e val) (\<lambda>e. Inr (e, Some UPB_WIRE_TYPE_64BIT)))
        | UPB_DESCRIPTOR_TYPE_FIXED32 \<Rightarrow>
            bind (get_u32 field_mem) (\<lambda>val.
            bind (encode_fixed32 h e val) (\<lambda>e. Inr (e, Some UPB_WIRE_TYPE_32BIT)))
        | UPB_DESCRIPTOR_TYPE_SFIXED32 \<Rightarrow>
            bind (get_u32 field_mem) (\<lambda>val.
            bind (encode_fixed32 h e val) (\<lambda>e. Inr (e, Some UPB_WIRE_TYPE_32BIT)))
        | UPB_DESCRIPTOR_TYPE_BOOL \<Rightarrow> CASE_varint val_bool e field_mem
        | UPB_DESCRIPTOR_TYPE_SINT32 \<Rightarrow> CASE_varint val_sint32 e field_mem
        | UPB_DESCRIPTOR_TYPE_SINT64 \<Rightarrow> CASE_varint val_sint64 e field_mem
        | UPB_DESCRIPTOR_TYPE_STRING \<Rightarrow>
            bind (get_strview field_mem) (\<lambda>view.
            bind (encode_bytes e (map Some view)) (\<lambda>e.
            bind (encode_varint e (of_nat (length view))) (\<lambda>e.
            Inr (e, Some UPB_WIRE_TYPE_DELIMITED))))
        | UPB_DESCRIPTOR_TYPE_BYTES \<Rightarrow>
            bind (get_strview field_mem) (\<lambda>view.
            bind (encode_bytes e (map Some view)) (\<lambda>e.
            bind (encode_varint e (of_nat (length view))) (\<lambda>e.
            Inr (e, Some UPB_WIRE_TYPE_DELIMITED))))
        | UPB_DESCRIPTOR_TYPE_GROUP \<Rightarrow>
            bind (get_msg field_mem) (\<lambda>submsg.
            bind (sub_at sbs (submsg_index f)) (\<lambda>subm.
            case submsg of
              None \<Rightarrow> Inr (e, None)
            | Some submsg \<Rightarrow>
                let e = e\<lparr>depth := depth e - 1\<rparr> in
                if depth e = 0 then Inl MaxDepthExceeded
                else
                  bind (encode_tag e (number f) UPB_WIRE_TYPE_END_GROUP) (\<lambda>e.
                  bind (encode_message_impl h e submsg subm) (\<lambda>(e, sz).
                  Inr (e\<lparr>depth := depth e + 1\<rparr>, Some UPB_WIRE_TYPE_START_GROUP)))))
        | UPB_DESCRIPTOR_TYPE_MESSAGE \<Rightarrow>
            bind (get_msg field_mem) (\<lambda>submsg.
            bind (sub_at sbs (submsg_index f)) (\<lambda>subm.
            case submsg of
              None \<Rightarrow> Inr (e, None)
            | Some submsg \<Rightarrow>
                let e = e\<lparr>depth := depth e - 1\<rparr> in
                if depth e = 0 then Inl MaxDepthExceeded
                else
                  bind (encode_message_impl h e submsg subm) (\<lambda>(e, sz).
                  bind (encode_varint e (of_nat sz)) (\<lambda>e.
                  Inr (e\<lparr>depth := depth e + 1\<rparr>, Some UPB_WIRE_TYPE_DELIMITED))))))
       (\<lambda>(e, wire_type).
          case wire_type of
            None \<Rightarrow> Inr e
          | Some wire_type \<Rightarrow> encode_tag e (number f) wire_type)"
| "encode_array_impl h e msg sbs f =
     bind (UPB_PTR_AT msg (offset f)) (\<lambda>slot.
     bind (get_array slot) (\<lambda>arr.
       let packed = is_packed f;
           pre_len = length (buf e) - ptr e
       in case arr of
            None \<Rightarrow> Inr e
          | Some arr \<Rightarrow>
              if length arr = 0 then Inr e
              else
                bind
                  (case descriptortype f of
                     UPB_DESCRIPTOR_TYPE_DOUBLE \<Rightarrow>
                       bind (encode_fixedarray_impl h e arr 8 (TAG packed f UPB_WIRE_TYPE_64BIT))
                         (\<lambda>e. Inr (e, False))
                   | UPB_DESCRIPTOR_TYPE_FLOAT \<Rightarrow>
                       bind (encode_fixedarray_impl h e arr 4 (TAG packed f UPB_WIRE_TYPE_32BIT))
                         (\<lambda>e. Inr (e, False))
                   | UPB_DESCRIPTOR_TYPE_SFIXED64 \<Rightarrow>
                       bind (encode_fixedarray_impl h e arr 8 (TAG packed f UPB_WIRE_TYPE_64BIT))
                         (\<lambda>e. Inr (e, False))
                   | UPB_DESCRIPTOR_TYPE_FIXED64 \<Rightarrow>
                       bind (encode_fixedarray_impl h e arr 8 (TAG packed f UPB_WIRE_TYPE_64BIT))
                         (\<lambda>e. Inr (e, False))
                   | UPB_DESCRIPTOR_TYPE_FIXED32 \<Rightarrow>
                       bind (encode_fixedarray_impl h e arr 4 (TAG packed f UPB_WIRE_TYPE_32BIT))
                         (\<lambda>e. Inr (e, False))
                   | UPB_DESCRIPTOR_TYPE_SFIXED32 \<Rightarrow>
                       bind (encode_fixedarray_impl h e arr 4 (TAG packed f UPB_WIRE_TYPE_32BIT))
                         (\<lambda>e. Inr (e, False))
                   | UPB_DESCRIPTOR_TYPE_INT64 \<Rightarrow>
                       bind (VARINT_CASE val_uint64 e arr packed f) (\<lambda>e. Inr (e, False))
                   | UPB_DESCRIPTOR_TYPE_UINT64 \<Rightarrow>
                       bind (VARINT_CASE val_uint64 e arr packed f) (\<lambda>e. Inr (e, False))
                   | UPB_DESCRIPTOR_TYPE_UINT32 \<Rightarrow>
                       bind (VARINT_CASE val_uint32 e arr packed f) (\<lambda>e. Inr (e, False))
                   | UPB_DESCRIPTOR_TYPE_INT32 \<Rightarrow>
                       bind (VARINT_CASE val_int32 e arr packed f) (\<lambda>e. Inr (e, False))
                   | UPB_DESCRIPTOR_TYPE_ENUM \<Rightarrow>
                       bind (VARINT_CASE val_int32 e arr packed f) (\<lambda>e. Inr (e, False))
                   | UPB_DESCRIPTOR_TYPE_BOOL \<Rightarrow>
                       bind (VARINT_CASE val_bool e arr packed f) (\<lambda>e. Inr (e, False))
                   | UPB_DESCRIPTOR_TYPE_SINT32 \<Rightarrow>
                       bind (VARINT_CASE val_sint32 e arr packed f) (\<lambda>e. Inr (e, False))
                   | UPB_DESCRIPTOR_TYPE_SINT64 \<Rightarrow>
                       bind (VARINT_CASE val_sint64 e arr packed f) (\<lambda>e. Inr (e, False))
                   | UPB_DESCRIPTOR_TYPE_STRING \<Rightarrow>
                       bind (for_each (\<lambda>x e.
                               bind (get_strview x) (\<lambda>view.
                               bind (encode_bytes e (map Some view)) (\<lambda>e.
                               bind (encode_varint e (of_nat (length view))) (\<lambda>e.
                               encode_tag e (number f) UPB_WIRE_TYPE_DELIMITED))))
                             (rev arr) e)
                         (\<lambda>e. Inr (e, True))
                   | UPB_DESCRIPTOR_TYPE_BYTES \<Rightarrow>
                       bind (for_each (\<lambda>x e.
                               bind (get_strview x) (\<lambda>view.
                               bind (encode_bytes e (map Some view)) (\<lambda>e.
                               bind (encode_varint e (of_nat (length view))) (\<lambda>e.
                               encode_tag e (number f) UPB_WIRE_TYPE_DELIMITED))))
                             (rev arr) e)
                         (\<lambda>e. Inr (e, True))
                   | UPB_DESCRIPTOR_TYPE_GROUP \<Rightarrow>
                       bind (sub_at sbs (submsg_index f)) (\<lambda>subm.
                         let e = e\<lparr>depth := depth e - 1\<rparr> in
                         if depth e = 0 then Inl MaxDepthExceeded
                         else
                           bind (for_each (\<lambda>x e.
                                   bind (encode_tag e (number f) UPB_WIRE_TYPE_END_GROUP) (\<lambda>e.
                                   bind (get_msg x) (\<lambda>p.
                                   case p of
                                     None \<Rightarrow> Inl Undefined
                                   | Some submsg \<Rightarrow>
                                       bind (encode_message_impl h e submsg subm) (\<lambda>(e, sz).
                                       encode_tag e (number f) UPB_WIRE_TYPE_START_GROUP))))
                                 (rev arr) e)
                             (\<lambda>e. Inr (e\<lparr>depth := depth e + 1\<rparr>, True)))
                   | UPB_DESCRIPTOR_TYPE_MESSAGE \<Rightarrow>
                       bind (sub_at sbs (submsg_index f)) (\<lambda>subm.
                         let e = e\<lparr>depth := depth e - 1\<rparr> in
                         if depth e = 0 then Inl MaxDepthExceeded
                         else
                           bind (for_each (\<lambda>x e.
                                   bind (get_msg x) (\<lambda>p.
                                   case p of
                                     None \<Rightarrow> Inl Undefined
                                   | Some submsg \<Rightarrow>
                                       bind (encode_message_impl h e submsg subm) (\<lambda>(e, sz).
                                       bind (encode_varint e (of_nat sz)) (\<lambda>e.
                                       encode_tag e (number f) UPB_WIRE_TYPE_DELIMITED))))
                                 (rev arr) e)
                             (\<lambda>e. Inr (e\<lparr>depth := depth e + 1\<rparr>, True))))
                  (\<lambda>(e, returned).
                     if returned then Inr e
                     else if packed then
                       bind (encode_varint e (of_nat (length (buf e) - ptr e - pre_len))) (\<lambda>e.
                       encode_tag e (number f) UPB_WIRE_TYPE_DELIMITED)
                     else Inr e)))"
| "encode_mapentry_impl h e num layout ent =
     (if length (fields' layout) < 2 then Inl Undefined
      else
        let key_field = fields' layout ! 0;
            val_field = fields' layout ! 1;
            pre_len = length (buf e) - ptr e
        in bind (encode_scalar_impl h e (snd ent) (subs layout) val_field) (\<lambda>e.
           bind (encode_scalar_impl h e (fst ent) (subs layout) key_field) (\<lambda>e.
             let sz = (length (buf e) - ptr e) - pre_len in
             bind (encode_varint e (of_nat sz)) (\<lambda>e.
             encode_tag e num UPB_WIRE_TYPE_DELIMITED))))"
| "encode_map_impl h e msg sbs f =
     bind (UPB_PTR_AT msg (offset f)) (\<lambda>slot.
     bind (get_map slot) (\<lambda>mp.
     bind (sub_at sbs (submsg_index f)) (\<lambda>lp.
     bind (layout_at h lp) (\<lambda>layout.
       if length (fields' layout) \<noteq> 2 then Inl Undefined
       else case mp of
         None \<Rightarrow> Inr e
       | Some m \<Rightarrow>
           if options e AND UPB_ENCODE_DETERMINISTIC \<noteq> 0
           then for_each (\<lambda>ent e. encode_mapentry_impl h e (number f) layout ent)
                  (sortedmap (descriptortype (fields' layout ! 0)) m) e
           else for_each (\<lambda>ent e. encode_mapentry_impl h e (number f) layout ent) m e))))"
| "encode_field_impl h e msg sbs field =
     (case mode field of
        UPB_MODE_ARRAY \<Rightarrow> encode_array_impl h e msg sbs field
      | UPB_MODE_MAP \<Rightarrow> encode_map_impl h e msg sbs field
      | UPB_MODE_SCALAR \<Rightarrow>
          bind (UPB_PTR_AT msg (offset field)) (\<lambda>field_mem.
          encode_scalar_impl h e field_mem sbs field))"
| "encode_msgset_item h e x =
     bind (encode_tag e 1 UPB_WIRE_TYPE_END_GROUP) (\<lambda>e.
     bind (get_msg (ext_data x)) (\<lambda>p.
     case p of
       None \<Rightarrow> Inl Undefined
     | Some submsg \<Rightarrow>
         bind (encode_message_impl h e submsg (ext_sub x)) (\<lambda>(e, sz).
         bind (encode_varint e (of_nat sz)) (\<lambda>e.
         bind (encode_tag e 3 UPB_WIRE_TYPE_DELIMITED) (\<lambda>e.
         bind (encode_varint e (ucast (number (ext_field x)))) (\<lambda>e.
         bind (encode_tag e 2 UPB_WIRE_TYPE_VARINT) (\<lambda>e.
         encode_tag e 1 UPB_WIRE_TYPE_START_GROUP)))))))"
| "encode_message_impl h e msg m =
     (let pre_len = length (buf e) - ptr e in
      bind (if options e AND UPB_ENCODE_SKIPUNKNOWN = 0
            then (case unknown msg of
                    None \<Rightarrow> Inr e
                  | Some unk \<Rightarrow> encode_bytes e (map Some unk))
            else Inr e) (\<lambda>e.
      bind (layout_at h m) (\<lambda>m.
      bind (if ext m \<noteq> UPB_MSGEXT_NONE
            then for_each (\<lambda>x e.
                   if ext m = UPB_MSGEXT_MSGSET then encode_msgset_item h e x
                   else encode_field_impl h e [(0, ext_data x)] [ext_sub x] (ext_field x))
                 (exts msg) e
            else Inr e) (\<lambda>e.
      bind (for_each (\<lambda>f e.
              bind (encode_shouldencode msg (subs m) f) (\<lambda>should.
              if should then encode_field_impl h e (slots msg) (subs m) f else Inr e))
            (rev (fields' m)) e) (\<lambda>e.
      Inr (e, (length (buf e) - ptr e) - pre_len))))))"
  by pat_completeness auto


lemma get_msg_size: "get_msg v = Inr (Some m) \<Longrightarrow> size m < size v"
  by (cases v) (auto simp: get_msg_def)

lemma get_array_size: "get_array v = Inr (Some xs) \<Longrightarrow> x \<in> set xs \<Longrightarrow> size x < size v"
proof -
  assume a: "get_array v = Inr (Some xs)" and x: "x \<in> set xs"
  from x have "size x \<le> size_list size xs" by (simp add: size_list_estimation')
  moreover from a have "v = VArr (Some xs)" by (cases v) (auto simp: get_array_def)
  ultimately show ?thesis by simp
qed

lemma get_map_size: "get_map v = Inr (Some xs) \<Longrightarrow> x \<in> set xs \<Longrightarrow> size_prod size size x < size v"
proof -
  assume a: "get_map v = Inr (Some xs)" and x: "x \<in> set xs"
  from x have "size_prod size size x \<le> size_list (size_prod size size) xs"
    by (simp add: size_list_estimation')
  moreover from a have "v = VMap (Some xs)" by (cases v) (auto simp: get_map_def)
  ultimately show ?thesis by simp
qed

lemma set_sortedmap: "set (sortedmap t xs) = set xs"
  by (simp add: sortedmap_def)

lemma ext_data_size: "size (ext_data x) < size x"
  by (cases x) simp

lemma exts_size: "x \<in> set (exts msg) \<Longrightarrow> size x < size msg"
proof -
  assume "x \<in> set (exts msg)"
  then have "size x \<le> size_list size (exts msg)" by (simp add: size_list_estimation')
  then show ?thesis by (cases msg) simp
qed

lemma slots_size: "size_list (size_prod (\<lambda>_. 0) size) (slots msg) < size msg"
  by (cases msg) simp

lemma fst_size: "size (fst ent) < size_prod size size ent"
  by (cases ent) simp

lemma snd_size: "size (snd ent) < size_prod size size ent"
  by (cases ent) simp

lemma slots_size2: "Suc (2 * size_list (size_prod (\<lambda>_. 0) size) (slots msg)) < 2 * size msg"
  using slots_size [of msg] by simp

lemma size_list_member: "x \<in> set xs \<Longrightarrow> f x < size_list f xs"
  by (induction xs) auto

lemma exts_data_size2:
  "x \<in> set (exts msg) \<Longrightarrow> Suc (Suc (Suc (Suc (Suc (2 * size (ext_data x)))))) < 2 * size msg"
proof -
  assume "x \<in> set (exts msg)"
  then have "size x < size_list size (exts msg)" by (rule size_list_member)
  moreover have "size_list size (exts msg) < size msg" by (cases msg) simp
  moreover have "size x = Suc (size (ext_data x))" by (cases x) simp
  ultimately show ?thesis by simp
qed

lemma get_msg_ext_size: "get_msg (ext_data x) = Inr (Some m) \<Longrightarrow> size m < size x"
  using get_msg_size [of "ext_data x" m] ext_data_size [of x] by simp

lemma array_elem_size:
  "UPB_PTR_AT msg ofs = Inr a \<Longrightarrow> get_array a = Inr (Some xs) \<Longrightarrow> x \<in> set xs
   \<Longrightarrow> size x < size_list (size_prod (\<lambda>_. 0) size) msg"
  using UPB_PTR_AT_size [of msg ofs a] get_array_size [of a xs x] by simp

lemma map_entry_size:
  "UPB_PTR_AT msg ofs = Inr a \<Longrightarrow> get_map a = Inr (Some xs) \<Longrightarrow> (k, v) \<in> set xs
   \<Longrightarrow> Suc (size k + size v) < size_list (size_prod (\<lambda>_. 0) size) msg"
  using UPB_PTR_AT_size [of msg ofs a] get_map_size [of a xs "(k, v)"] by simp

termination encode_message_impl
  apply (relation "measure
    (case_sum
      (case_sum (\<lambda>(h, e, msg, m). 2 * size msg)
        (case_sum (\<lambda>(h, e, v, sbs, f). 2 * size v)
                  (\<lambda>(h, e, msg, sbs, f). 2 * size_list (size_prod (\<lambda>_. 0) size) msg)))
      (case_sum
        (case_sum (\<lambda>(h, e, num, layout, ent). 2 * size_prod size size ent)
                  (\<lambda>(h, e, msg, sbs, f). 2 * size_list (size_prod (\<lambda>_. 0) size) msg))
        (case_sum (\<lambda>(h, e, msg, sbs, f). 2 * size_list (size_prod (\<lambda>_. 0) size) msg + 1)
                  (\<lambda>(h, e, x). 2 * size x))))")
  apply simp
  apply (simp_all add: set_sortedmap fst_size snd_size slots_size2 exts_data_size2)
  apply (auto dest!: get_msg_size dest: UPB_PTR_AT_size get_array_size get_map_size exts_size get_msg_ext_size)
  subgoal by (drule (2) array_elem_size) simp
  subgoal by (drule (2) array_elem_size) simp
  subgoal by (erule (2) map_entry_size)
  subgoal by (erule (2) map_entry_size)
  subgoal by (rule less_trans [OF _ ext_data_size])
  done

declare encode_message_impl.simps [simp del] encode_scalar_impl.simps [simp del]
  encode_array_impl.simps [simp del] encode_mapentry_impl.simps [simp del]
  encode_map_impl.simps [simp del] encode_field_impl.simps [simp del]
  encode_msgset_item.simps [simp del]

subsection \<open>Top-level entry\<close>

text \<open>
  The pointer \<^verbatim>\<open>upb_encode_ex\<close> returns: null, the address of its static placeholder
  byte, or an offset into the buffer of the context.  The result is the pointer, the
  size stored through \<^verbatim>\<open>size\<close>, and the memory of the buffer the pointer points into.
  An execution that is \<open>Undefined\<close> has no result.
\<close>

datatype charptr = NULL | Static_ch | Buffer nat

definition upb_encode_ex ::
  "host \<Rightarrow> upb_msg \<Rightarrow> nat \<Rightarrow> u32 \<Rightarrow> upb_alloc \<Rightarrow> (charptr \<times> nat \<times> byte option list) option" where
  "upb_encode_ex h msg l opts arena =
     (let dep = unat (drop_bit 16 opts);
          e = \<lparr>ptr = 0, buf = [], alloc = arena, options = opts,
               depth = (if dep \<noteq> 0 then int dep else 64)\<rparr>
      in case encode_message_impl h e msg l of
           Inl Undefined \<Rightarrow> None
         | Inl _ \<Rightarrow> Some (NULL, 0, [])
         | Inr (e, sz) \<Rightarrow>
             let sz = length (buf e) - ptr e in
             if sz = 0 then Some (Static_ch, sz, buf e)
             else Some (Buffer (ptr e), sz, buf e))"

text \<open>The bytes the caller finds at the returned pointer.\<close>

definition returned_bytes :: "charptr \<times> nat \<times> byte option list \<Rightarrow> byte option list" where
  "returned_bytes r = (case r of (Buffer p, n, m) \<Rightarrow> take n (drop p m) | _ \<Rightarrow> [])"


subsection \<open>Specification vocabulary\<close>

text \<open>The buffer invariant of the spec: the write cursor lies inside the allocation.\<close>

definition buffer_inv :: "upb_encstate \<Rightarrow> bool" where
  "buffer_inv e \<longleftrightarrow> ptr e \<le> length (buf e)"

text \<open>
  Base-128 little-endian, as the wire format defines it (not taken from the code): the
  value of a byte string read as 7-bit groups, least significant first, and the shape
  of a varint: every byte but the last has the continuation bit, the last has not.
\<close>

fun base128_value :: "byte list \<Rightarrow> nat" where
  "base128_value [] = 0"
| "base128_value (b # bs) = unat (b AND 0x7f) + 128 * base128_value bs"

fun base128_wf :: "byte list \<Rightarrow> bool" where
  "base128_wf [] = False"
| "base128_wf [b] = (b < 128)"
| "base128_wf (b # bs) = (128 \<le> b \<and> base128_wf bs)"

text \<open>
  A specification for a computation that may fail: every result it returns satisfies
  \<open>Q\<close>, and every error it ends with satisfies \<open>E\<close>.
\<close>

definition ensures :: "(error \<Rightarrow> bool) \<Rightarrow> ('r \<Rightarrow> bool) \<Rightarrow> error + 'r \<Rightarrow> bool" where
  "ensures E Q m \<longleftrightarrow> (\<forall>r. m = Inr r \<longrightarrow> Q r) \<and> (\<forall>x. m = Inl x \<longrightarrow> E x)"

text \<open>
  What every emitter keeps of the state it is given: the buffer invariant, the options,
  the allocator's policy, the bytes written before (as a suffix of what is written now)
  and the remaining depth.
\<close>

definition kept :: "u32 \<Rightarrow> (nat \<Rightarrow> nat \<Rightarrow> bool) \<Rightarrow> byte option list \<Rightarrow> int \<Rightarrow> upb_encstate \<Rightarrow> bool" where
  "kept opts g w d e \<longleftrightarrow> buffer_inv e \<and> options e = opts \<and> grant (alloc e) = g
      \<and> suffix w (written e) \<and> depth e = d"

text \<open>
  A state from which writing cannot fail: the buffer invariant holds and the allocator
  grants every request.  \<open>emits e ws m\<close>: the computation \<open>m\<close>, started in \<open>e\<close>,
  returns normally, has put exactly \<open>ws\<close> in front of what \<open>e\<close> had written, and has left the
  depth and the options as they were, in a state from which writing cannot fail either.
\<close>

definition ok :: "upb_encstate \<Rightarrow> bool" where
  "ok e \<longleftrightarrow> buffer_inv e \<and> (\<forall>k n. grant (alloc e) k n)"

definition emits :: "upb_encstate \<Rightarrow> byte option list \<Rightarrow> error + upb_encstate \<Rightarrow> bool" where
  "emits e ws m \<longleftrightarrow> (\<exists>e'. m = Inr e' \<and> ok e' \<and> written e' = ws @ written e
      \<and> depth e' = depth e \<and> options e' = options e)"

text \<open>
  A field that holds nothing to encode: the presence test of the encoder says so, or the
  field is a repeated field whose array is null or empty, a map field whose map is null
  or empty, or a sub-message or group field whose pointer is null.
\<close>

definition holds_nothing :: "host \<Rightarrow> upb_msg \<Rightarrow> nat list \<Rightarrow> upb_msglayout_field \<Rightarrow> bool" where
  "holds_nothing h msg sbs f =
     (case mode f of
        UPB_MODE_ARRAY \<Rightarrow>
          UPB_PTR_AT (slots msg) (offset f) = Inr (VArr None)
          \<or> UPB_PTR_AT (slots msg) (offset f) = Inr (VArr (Some []))
      | UPB_MODE_MAP \<Rightarrow>
          (UPB_PTR_AT (slots msg) (offset f) = Inr (VMap None)
           \<or> UPB_PTR_AT (slots msg) (offset f) = Inr (VMap (Some [])))
          \<and> (case sub_at sbs (submsg_index f) of
                Inl _ \<Rightarrow> False
              | Inr lp \<Rightarrow> (case layouts h lp of None \<Rightarrow> False
                           | Some layout \<Rightarrow> length (fields' layout) = 2))
      | UPB_MODE_SCALAR \<Rightarrow>
          (descriptortype f = UPB_DESCRIPTOR_TYPE_MESSAGE \<or> descriptortype f = UPB_DESCRIPTOR_TYPE_GROUP)
          \<and> UPB_PTR_AT (slots msg) (offset f) = Inr (VMsg None)
          \<and> submsg_index f < length sbs)"

definition absent :: "host \<Rightarrow> upb_msg \<Rightarrow> nat list \<Rightarrow> upb_msglayout_field \<Rightarrow> bool" where
  "absent h msg sbs f =
     (case encode_shouldencode msg sbs f of
        Inl _ \<Rightarrow> False
      | Inr should \<Rightarrow> \<not> should \<or> holds_nothing h msg sbs f)"

text \<open>The state \<^verbatim>\<open>upb_encode_ex\<close> starts the message emitter in.\<close>

definition initial :: "u32 \<Rightarrow> upb_alloc \<Rightarrow> upb_encstate" where
  "initial opts arena = \<lparr>ptr = 0, buf = [], alloc = arena, options = opts,
     depth = (if unat (drop_bit 16 opts) \<noteq> 0 then int (unat (drop_bit 16 opts)) else 64)\<rparr>"

text \<open>A state that has no buffer yet and an allocator that grants nothing.\<close>

definition unallocated :: "upb_encstate \<Rightarrow> bool" where
  "unallocated e \<longleftrightarrow> ptr e = 0 \<and> buf e = [] \<and> (\<forall>k n. \<not> grant (alloc e) k n)"

subsection \<open>Example inputs\<close>

text \<open>An allocator that grants every request, and the state \<^verbatim>\<open>upb_encode_ex\<close> starts from.\<close>

definition grant_all :: upb_alloc where
  "grant_all = \<lparr>calls = 0, grant = (\<lambda>k n. True)\<rparr>"

definition one_free_byte :: upb_encstate where
  "one_free_byte = \<lparr>ptr = 1, buf = [None], alloc = grant_all, options = 0, depth = 64\<rparr>"

definition start :: "u32 \<Rightarrow> int \<Rightarrow> upb_encstate" where
  "start opts d = \<lparr>ptr = 0, buf = [], alloc = grant_all, options = opts, depth = d\<rparr>"

text \<open>
  A scalar or repeated field at offset 8 with implicit presence, and a message with no
  hasbits, no unknown fields and no extensions that holds one slot, at offset 8.
\<close>

definition field_at8 :: "u32 \<Rightarrow> descriptortype \<Rightarrow> field_mode \<Rightarrow> bool \<Rightarrow> field_rep \<Rightarrow> upb_msglayout_field" where
  "field_at8 n t md p r = \<lparr>number = n, offset = 8, presence = 0, submsg_index = 0,
     descriptortype = t, mode = md, is_packed = p, rep = r\<rparr>"

definition msg1 :: "upb_val \<Rightarrow> upb_msg" where
  "msg1 v = Msg (\<lambda>_. False) [(8, v)] None []"

definition layout1 :: "nat list \<Rightarrow> upb_msglayout_field \<Rightarrow> upb_msglayout" where
  "layout1 sbs f = \<lparr>subs = sbs, fields' = [f], ext = UPB_MSGEXT_NONE\<rparr>"

text \<open>
  The layouts of the examples:
  0 is a message whose field 1 is a message of the same type (a cyclic layout);
  1 has an \<^verbatim>\<open>int32\<close> field 1; 2 has an \<^verbatim>\<open>int32\<close> field 2; 3 has a message field 1 of
  layout 2; 4 has a packed repeated \<^verbatim>\<open>int32\<close> field 1; 5 has a packed repeated
  \<^verbatim>\<open>fixed32\<close> field 1; 6 is the entry layout of a map from \<^verbatim>\<open>int32\<close> to \<^verbatim>\<open>int32\<close>; 7
  has such a map as field 7; 8 is a message set.
\<close>

definition example_layouts :: "nat \<Rightarrow> upb_msglayout option" where
  "example_layouts i =
     (if i = 0 then Some (layout1 [0] (field_at8 1 UPB_DESCRIPTOR_TYPE_MESSAGE UPB_MODE_SCALAR False UPB_REP_8BYTE))
      else if i = 1 then Some (layout1 [] (field_at8 1 UPB_DESCRIPTOR_TYPE_INT32 UPB_MODE_SCALAR False UPB_REP_4BYTE))
      else if i = 2 then Some (layout1 [] (field_at8 2 UPB_DESCRIPTOR_TYPE_INT32 UPB_MODE_SCALAR False UPB_REP_4BYTE))
      else if i = 3 then Some (layout1 [2] (field_at8 1 UPB_DESCRIPTOR_TYPE_MESSAGE UPB_MODE_SCALAR False UPB_REP_8BYTE))
      else if i = 4 then Some (layout1 [] (field_at8 1 UPB_DESCRIPTOR_TYPE_INT32 UPB_MODE_ARRAY True UPB_REP_8BYTE))
      else if i = 5 then Some (layout1 [] (field_at8 1 UPB_DESCRIPTOR_TYPE_FIXED32 UPB_MODE_ARRAY True UPB_REP_8BYTE))
      else if i = 6 then Some \<lparr>subs = [], fields' =
             [(field_at8 1 UPB_DESCRIPTOR_TYPE_INT32 UPB_MODE_SCALAR False UPB_REP_4BYTE)\<lparr>offset := 0\<rparr>,
              field_at8 2 UPB_DESCRIPTOR_TYPE_INT32 UPB_MODE_SCALAR False UPB_REP_4BYTE],
             ext = UPB_MSGEXT_NONE\<rparr>
      else if i = 7 then Some (layout1 [6] (field_at8 7 UPB_DESCRIPTOR_TYPE_MESSAGE UPB_MODE_MAP False UPB_REP_8BYTE))
      else if i = 8 then Some \<lparr>subs = [], fields' = [], ext = UPB_MSGEXT_MSGSET\<rparr>
      else None)"

definition little_endian_host :: host where
  "little_endian_host = \<lparr>big_endian = False, layouts = example_layouts\<rparr>"

definition big_endian_host :: host where
  "big_endian_host = \<lparr>big_endian = True, layouts = example_layouts\<rparr>"





subsection \<open>Packed repeated fields\<close>







subsection \<open>The parts of the message emitter\<close>

text \<open>
  Names for the two parts of \<^verbatim>\<open>encode_message_impl\<close>: what it does before the loop over the
  declared fields (the unknown fields, then the extensions), and the body of that loop.
\<close>

definition unknown_and_extensions ::
  "host \<Rightarrow> upb_encstate \<Rightarrow> upb_msg \<Rightarrow> upb_msglayout \<Rightarrow> error + upb_encstate" where
  "unknown_and_extensions h e msg m =
     bind (if options e AND UPB_ENCODE_SKIPUNKNOWN = 0
           then (case unknown msg of
                   None \<Rightarrow> Inr e
                 | Some unk \<Rightarrow> encode_bytes e (map Some unk))
           else Inr e) (\<lambda>e.
     if ext m \<noteq> UPB_MSGEXT_NONE
     then for_each (\<lambda>x e.
            if ext m = UPB_MSGEXT_MSGSET then encode_msgset_item h e x
            else encode_field_impl h e [(0, ext_data x)] [ext_sub x] (ext_field x))
          (exts msg) e
     else Inr e)"

definition field_step ::
  "host \<Rightarrow> upb_msg \<Rightarrow> upb_msglayout \<Rightarrow> upb_msglayout_field \<Rightarrow> upb_encstate
   \<Rightarrow> error + upb_encstate" where
  "field_step h msg m f e =
     bind (encode_shouldencode msg (subs m) f) (\<lambda>should.
     if should then encode_field_impl h e (slots msg) (subs m) f else Inr e)"

text \<open>
  A state of the same run as \<open>e\<close>: the buffer invariant holds, and the depth, the options
  and the policy of the allocator are those of \<open>e\<close>.
\<close>

definition same_context :: "upb_encstate \<Rightarrow> upb_encstate \<Rightarrow> bool" where
  "same_context e s \<longleftrightarrow> buffer_inv s \<and> depth s = depth e \<and> options s = options e
     \<and> grant (alloc s) = grant (alloc e)"

text \<open>A layout with the \<^verbatim>\<open>int32\<close> fields 1 and 2, and a message that holds 1 and 2 in them.\<close>

definition two_fields :: upb_msglayout where
  "two_fields = \<lparr>subs = [], fields' =
     [field_at8 1 UPB_DESCRIPTOR_TYPE_INT32 UPB_MODE_SCALAR False UPB_REP_4BYTE,
      (field_at8 2 UPB_DESCRIPTOR_TYPE_INT32 UPB_MODE_SCALAR False UPB_REP_4BYTE)\<lparr>offset := 16\<rparr>],
     ext = UPB_MSGEXT_NONE\<rparr>"

definition two_fields_host :: host where
  "two_fields_host = \<lparr>big_endian = False, layouts = (\<lambda>i. if i = 0 then Some two_fields else None)\<rparr>"

definition one_and_two :: upb_msg where
  "one_and_two = Msg (\<lambda>_. False) [(8, V4 1), (16, V4 2)] None []"

section \<open>Buffer manager and primitive emitters\<close>

lemma roundup_loop_Some:
  "0 < r \<Longrightarrow> \<exists>n. roundup_loop r b = Some n \<and> b \<le> n \<and> r \<le> n"
proof (induction "b - r" arbitrary: r rule: less_induct)
  case less
  show ?case
  proof (cases "r < b")
    case True
    then have "b - r * 2 < b - r" using less.prems by simp
    from less.hyps [OF this] less.prems
    obtain n where "roundup_loop (r * 2) b = Some n" "b \<le> n" "r * 2 \<le> n" by auto
    with True show ?thesis
      by (subst roundup_loop.simps) auto
  next
    case False
    then show ?thesis
      by (subst roundup_loop.simps) auto
  qed
qed

lemma upb_roundup_pow2_Some: "\<exists>n. upb_roundup_pow2 b = Some n \<and> b \<le> n \<and> 128 \<le> n"
  unfolding upb_roundup_pow2_def using roundup_loop_Some [of 128 b] by simp

lemma encode_growbuffer_Inr:
  assumes "encode_growbuffer e n = Inr e'" "buffer_inv e"
  shows "ptr e' + n \<le> length (buf e') \<and> drop (ptr e' + n) (buf e') = written e
         \<and> depth e' = depth e \<and> options e' = options e
         \<and> grant (alloc e') = grant (alloc e)"
proof -
  let ?cur = "length (buf e) - ptr e"
  obtain k where k: "upb_roundup_pow2 (n + ?cur) = Some k" "n + ?cur \<le> k"
    using upb_roundup_pow2_Some by blast
  from assms(1) k(1) have "\<exists>a. upb_malloc (alloc e) k = Some a \<and> e' = e\<lparr>ptr := k - ?cur - n,
            buf := (if ?cur > 0 then memcpy (replicate k None) (k - ?cur) (drop (ptr e) (buf e))
                    else replicate k None), alloc := a\<rparr>"
    by (auto simp: encode_growbuffer_def Let_def split: option.splits)
  then obtain a where m: "upb_malloc (alloc e) k = Some a" and
    e': "e' = e\<lparr>ptr := k - ?cur - n,
            buf := (if ?cur > 0 then memcpy (replicate k None) (k - ?cur) (drop (ptr e) (buf e))
                    else replicate k None), alloc := a\<rparr>" by blast
  from m have a: "grant a = grant (alloc e)"
    by (auto simp: upb_malloc_def split: if_splits)
  show ?thesis
  proof (cases "?cur > 0")
    case True
    with e' k(2) a show ?thesis by (simp add: memcpy_def written_def)
  next
    case False
    with e' k(2) a assms(2) show ?thesis by (simp add: written_def buffer_inv_def)
  qed
qed

lemma encode_growbuffer_Inl:
  "encode_growbuffer e n = Inl x \<Longrightarrow> x = OutOfMemory"
  using upb_roundup_pow2_Some [of "n + (length (buf e) - ptr e)"]
  by (auto simp: encode_growbuffer_def Let_def split: option.splits)

lemma encode_reserve_Inr:
  assumes "encode_reserve e n = Inr e'" "buffer_inv e"
  shows "ptr e' + n \<le> length (buf e') \<and> drop (ptr e' + n) (buf e') = written e
         \<and> depth e' = depth e \<and> options e' = options e
         \<and> grant (alloc e') = grant (alloc e)"
proof (cases "ptr e < n")
  case True
  with assms show ?thesis by (simp add: encode_reserve_def encode_growbuffer_Inr)
next
  case False
  with assms show ?thesis by (auto simp: encode_reserve_def written_def buffer_inv_def)
qed

lemma encode_reserve_Inl: "encode_reserve e n = Inl x \<Longrightarrow> x = OutOfMemory"
  by (auto simp: encode_reserve_def encode_growbuffer_Inl split: if_splits)

lemma encode_bytes_Inr:
  assumes "encode_bytes e d = Inr e'" "buffer_inv e"
  shows "written e' = d @ written e \<and> buffer_inv e' \<and> depth e' = depth e \<and> options e' = options e
         \<and> grant (alloc e') = grant (alloc e)"
proof (cases "d = []")
  case True
  with assms show ?thesis by (simp add: encode_bytes_def)
next
  case False
  with assms obtain e1 where e1: "encode_reserve e (length d) = Inr e1"
    and e': "e' = e1\<lparr>buf := memcpy (buf e1) (ptr e1) d\<rparr>"
    by (auto simp: encode_bytes_def bind_def split: sum.splits)
  from encode_reserve_Inr [OF e1 assms(2)] e' show ?thesis
    by (auto simp: written_def memcpy_def buffer_inv_def)
qed

lemma encode_bytes_Inl: "encode_bytes e d = Inl x \<Longrightarrow> x = OutOfMemory"
  by (auto simp: encode_bytes_def bind_def encode_reserve_Inl split: if_splits sum.splits)

lemma length_encode_varint64_pos: "0 < length (encode_varint64 v)"
  by (subst encode_varint64.simps) simp

lemma length_encode_varint64_aux:
  "0 < k \<Longrightarrow> unat v < 2 ^ (7 * k) \<Longrightarrow> length (encode_varint64 v) \<le> k"
proof (induction k arbitrary: v)
  case 0
  then show ?case by simp
next
  case (Suc k)
  show ?case
  proof (cases "127 < v")
    case False
    then show ?thesis by (subst encode_varint64.simps) simp
  next
    case True
    then have "128 \<le> unat v" by (simp add: word_less_nat_alt)
    have d: "unat (drop_bit 7 v) = unat v div 128"
      by (simp add: drop_bit_eq_div unat_div)
    have "unat v div 128 < 2 ^ (7 * k)"
      using Suc.prems(2) by (simp add: less_mult_imp_div_less power_add mult.commute)
    moreover have "0 < k"
    proof (rule ccontr)
      assume "\<not> 0 < k"
      with Suc.prems(2) \<open>128 \<le> unat v\<close> show False by simp
    qed
    ultimately have "length (encode_varint64 (drop_bit 7 v)) \<le> k"
      using Suc.IH d by simp
    with True show ?thesis by (subst encode_varint64.simps) simp
  qed
qed

lemma length_encode_varint64_le: "length (encode_varint64 v) \<le> 10"
proof -
  have "unat v < 2 ^ 64" using unsigned_less [of v, where 'a = nat] by simp
  then have "unat v < 2 ^ (7 * 10)" by simp
  then show ?thesis by (intro length_encode_varint64_aux) simp_all
qed

lemma encode_longvarint_Inr:
  assumes "encode_longvarint e v = Inr e'" "buffer_inv e"
  shows "written e' = map Some (encode_varint64 v) @ written e \<and> buffer_inv e'
         \<and> depth e' = depth e \<and> options e' = options e
         \<and> grant (alloc e') = grant (alloc e)"
proof -
  let ?bs = "encode_varint64 v"
  have len: "length ?bs \<le> 10" "0 < length ?bs"
    by (rule length_encode_varint64_le, rule length_encode_varint64_pos)
  from assms obtain e1 where e1: "encode_reserve e 16 = Inr e1"
    and e': "e' = e1\<lparr>ptr := ptr e1 + 16 - (16 + length ?bs - 16),
        buf := memcpy (buf e1) (ptr e1)
                 (take 16 (drop (16 + length ?bs - 16) (memcpy (replicate 32 None) 16 (map Some ?bs))))\<rparr>"
    by (auto simp: encode_longvarint_def bind_def Let_def split: sum.splits)
  have cp: "take 16 (drop (16 + length ?bs - 16) (memcpy (replicate 32 None) 16 (map Some ?bs)))
        = replicate (16 - length ?bs) None @ map Some ?bs"
    using len by (simp add: memcpy_def)
  from encode_reserve_Inr [OF e1 assms(2)] e' len show ?thesis
    unfolding cp by (auto simp: written_def memcpy_def buffer_inv_def)
qed

lemma encode_varint_Inr:
  assumes "encode_varint e v = Inr e'" "buffer_inv e"
  shows "written e' = map Some (encode_varint64 v) @ written e \<and> buffer_inv e'
         \<and> depth e' = depth e \<and> options e' = options e
         \<and> grant (alloc e') = grant (alloc e)"
proof (cases "v < 128 \<and> ptr e \<noteq> 0")
  case False
  with assms show ?thesis by (auto simp: encode_varint_def encode_longvarint_Inr)
next
  case True
  then have "\<not> 127 < v" by (simp add: word_less_nat_alt)
  then have bs: "encode_varint64 v = [ucast v]" by (subst encode_varint64.simps) simp
  from True assms have e': "e' = e\<lparr>ptr := ptr e - 1, buf := (buf e)[ptr e - 1 := Some (ucast v)]\<rparr>"
    by (simp add: encode_varint_def)
  from True assms(2) have "drop (ptr e - 1) ((buf e)[ptr e - 1 := Some (ucast v)])
      = Some (ucast v) # drop (ptr e) (buf e)"
    by (cases "ptr e") (simp_all add: buffer_inv_def Cons_nth_drop_Suc [symmetric] less_eq_Suc_le drop_update_cancel)
  with e' assms(2) show ?thesis
    by (simp add: written_def bs buffer_inv_def)
qed

lemma m7: "(0x7f :: byte) = mask 7" by (simp add: mask_eq_exp_minus_1)
lemma p7: "(0x80 :: u64) = push_bit 7 1" by simp
lemma p7b: "(128 :: byte) = push_bit 7 1" by simp

lemma low7: "unat ((ucast (v OR 0x80 :: u64) :: byte) AND 0x7f) = unat v mod 128"
proof -
  have "(ucast (v OR 0x80) :: byte) AND 0x7f = ucast (take_bit 7 v)"
    unfolding m7 p7 by (rule bit_word_eqI) (auto simp: bit_simps simp del: push_bit_of_1)
  moreover have "unat (ucast (take_bit 7 v) :: byte) = unat (take_bit 7 v)"
    by (simp add: unsigned_ucast_eq unsigned_take_bit_eq min_def)
  ultimately show ?thesis by (simp add: unsigned_take_bit_eq take_bit_eq_mod unat_mod)
qed

lemma small: "\<not> 127 < (v::u64) \<Longrightarrow> unat ((ucast v :: byte) AND 0x7f) = unat v \<and> (ucast v :: byte) < 128"
proof -
  assume "\<not> 127 < v"
  then have v: "unat v < 128" by (simp add: word_less_nat_alt not_less)
  then have u: "unat (ucast v :: byte) = unat v"
    by (simp add: unsigned_ucast_eq take_bit_nat_eq_self)
  have "unat ((ucast v :: byte) AND 0x7f) = unat (ucast v :: byte) mod 128"
    unfolding m7 by (simp add: take_bit_eq_mask [symmetric] unsigned_take_bit_eq take_bit_eq_mod unat_mod)
  with u v show ?thesis by (simp add: word_less_nat_alt)
qed

lemma hi: "128 \<le> (ucast (v OR 0x80 :: u64) :: byte)"
proof -
  have "(ucast (v OR push_bit 7 1 :: u64) :: byte) = push_bit 7 1 OR ucast v"
    by (rule bit_word_eqI) (auto simp: bit_simps simp del: push_bit_of_1)
  then have "(ucast (v OR 0x80 :: u64) :: byte) = 0x80 OR ucast v"
    by simp
  then show ?thesis
    using le_word_or2 [of "0x80 :: byte" "ucast v"] by simp
qed

lemma base128_value_encode_varint64: "base128_value (encode_varint64 v) = unat v"
proof (induction v rule: encode_varint64.induct)
  case (1 v)
  show ?case
  proof (cases "127 < v")
    case True
    have "unat (drop_bit 7 v) = unat v div 128"
      by (simp add: drop_bit_eq_div unat_div)
    with 1 True show ?thesis
      by (subst encode_varint64.simps) (simp add: low7)
  next
    case False
    then show ?thesis
      by (subst encode_varint64.simps) (simp add: small)
  qed
qed

lemma base128_wf_encode_varint64: "base128_wf (encode_varint64 v)"
proof (induction v rule: encode_varint64.induct)
  case (1 v)
  show ?case
  proof (cases "127 < v")
    case True
    with 1 have "base128_wf (encode_varint64 (drop_bit 7 v))" by simp
    moreover obtain c cs where "encode_varint64 (drop_bit 7 v) = c # cs"
      using length_encode_varint64_pos [of "drop_bit 7 v"] by (cases "encode_varint64 (drop_bit 7 v)") auto
    ultimately show ?thesis using True
      by (subst encode_varint64.simps) (simp add: hi)
  next
    case False
    then show ?thesis
      by (subst encode_varint64.simps) (simp add: small)
  qed
qed




section \<open>Invariants of the emitters\<close>

lemma bind_Inr: "bind m f = Inr y \<longleftrightarrow> (\<exists>a. m = Inr a \<and> f a = Inr y)"
  by (cases m) (simp_all add: bind_def)

lemma bind_Inl: "bind m f = Inl x \<longleftrightarrow> m = Inl x \<or> (\<exists>a. m = Inr a \<and> f a = Inl x)"
  by (cases m) (simp_all add: bind_def)

lemma ensures_Inr_D: "ensures E Q m \<Longrightarrow> m = Inr r \<Longrightarrow> Q r"
  by (simp add: ensures_def)

lemma ensures_Inl_D: "ensures E Q m \<Longrightarrow> m = Inl x \<Longrightarrow> E x"
  by (simp add: ensures_def)

lemma ensures_bind:
  "ensures E Q1 m \<Longrightarrow> (\<And>r. m = Inr r \<Longrightarrow> Q1 r \<Longrightarrow> ensures E Q (f r)) \<Longrightarrow> ensures E Q (bind m f)"
  by (auto simp: ensures_def bind_Inr bind_Inl)

lemma ensures_Inl: "E x \<Longrightarrow> ensures E Q (Inl x)"
  by (simp add: ensures_def)

lemma ensures_Inr: "Q r \<Longrightarrow> ensures E Q (Inr r)"
  by (simp add: ensures_def)

lemma ensures_if:
  "(c \<Longrightarrow> ensures E Q a) \<Longrightarrow> (\<not> c \<Longrightarrow> ensures E Q b) \<Longrightarrow> ensures E Q (if c then a else b)"
  by simp

lemma ensures_option:
  "(x = None \<Longrightarrow> ensures E Q a) \<Longrightarrow> (\<And>y. x = Some y \<Longrightarrow> ensures E Q (b y))
   \<Longrightarrow> ensures E Q (case x of None \<Rightarrow> a | Some y \<Rightarrow> b y)"
  by (cases x) simp_all

lemma ensures_prod: "ensures E Q (f (fst r) (snd r)) \<Longrightarrow> ensures E Q (case r of (a, b) \<Rightarrow> f a b)"
  by (simp add: split_beta)

lemma ensures_for_each:
  assumes "Inv e" "\<And>x s. x \<in> set xs \<Longrightarrow> Inv s \<Longrightarrow> ensures E Inv (body x s)"
  shows "ensures E Inv (for_each body xs e)"
  using assms
proof (induction xs arbitrary: e)
  case Nil
  then show ?case by (simp add: ensures_def)
next
  case (Cons x xs)
  have "ensures E Inv (bind (body x e) (for_each body xs))"
  proof (rule ensures_bind [where ?Q1.0 = Inv])
    show "ensures E Inv (body x e)" using Cons.prems by simp
  next
    fix r assume "Inv r"
    then show "ensures E Inv (for_each body xs r)"
      by (rule Cons.IH) (use Cons.prems(2) in simp)
  qed
  then show ?case by simp
qed

text \<open>Reading a slot or a table either succeeds or is \<open>Undefined\<close>.\<close>

lemma map_result_Undefined:
  "(\<And>x y. f x = Inl y \<Longrightarrow> y = Undefined) \<Longrightarrow> map_result f xs = Inl y \<Longrightarrow> y = Undefined"
  by (induction xs arbitrary: y) (auto simp: bind_Inl)

lemma reads_Undefined:
  "get_bool v = Inl y \<Longrightarrow> y = Undefined"
  "get_u32 v = Inl y \<Longrightarrow> y = Undefined"
  "get_u64 v = Inl y \<Longrightarrow> y = Undefined"
  "get_strview v = Inl y \<Longrightarrow> y = Undefined"
  "get_msg v = Inl y \<Longrightarrow> y = Undefined"
  "get_array v = Inl y \<Longrightarrow> y = Undefined"
  "get_map v = Inl y \<Longrightarrow> y = Undefined"
  "UPB_PTR_AT sl ofs = Inl y \<Longrightarrow> y = Undefined"
  "sub_at sbs i = Inl y \<Longrightarrow> y = Undefined"
  "layout_at h l = Inl y \<Longrightarrow> y = Undefined"
  "elem_mem h k v = Inl y \<Longrightarrow> y = Undefined"
  by (auto simp: get_bool_def get_u32_def get_u64_def get_strview_def get_msg_def get_array_def
        get_map_def UPB_PTR_AT_def sub_at_def layout_at_def elem_mem_def
        split: upb_val.splits if_splits option.splits)

lemma vals_Undefined:
  "val_uint64 v = Inl y \<Longrightarrow> y = Undefined"
  "val_uint32 v = Inl y \<Longrightarrow> y = Undefined"
  "val_int32 v = Inl y \<Longrightarrow> y = Undefined"
  "val_bool v = Inl y \<Longrightarrow> y = Undefined"
  "val_sint32 v = Inl y \<Longrightarrow> y = Undefined"
  "val_sint64 v = Inl y \<Longrightarrow> y = Undefined"
  by (auto simp: val_uint64_def val_uint32_def val_int32_def val_bool_def val_sint32_def
        val_sint64_def bind_Inl dest: reads_Undefined)

lemma is_pointer_nonnull_Undefined: "is_pointer_nonnull mem = Inl y \<Longrightarrow> y = Undefined"
  by (cases mem) (simp_all add: is_pointer_nonnull_def)

lemma slot_nonzero_Undefined:
  "(case r of
      UPB_REP_1BYTE \<Rightarrow> (case mem of V1 ch \<Rightarrow> Inr (ch \<noteq> 0) | _ \<Rightarrow> Inl Undefined)
    | UPB_REP_4BYTE \<Rightarrow> (case mem of V4 u32 \<Rightarrow> Inr (u32 \<noteq> 0) | _ \<Rightarrow> is_pointer_nonnull mem)
    | UPB_REP_8BYTE \<Rightarrow> (case mem of V8 u64 \<Rightarrow> Inr (u64 \<noteq> 0) | _ \<Rightarrow> is_pointer_nonnull mem)
    | UPB_REP_STRVIEW \<Rightarrow> (case mem of VStr str \<Rightarrow> Inr (length str \<noteq> 0) | _ \<Rightarrow> Inl Undefined))
    = Inl y \<Longrightarrow> y = Undefined"
  by (cases r; cases mem) (simp_all add: is_pointer_nonnull_def)

lemma encode_shouldencode_Undefined: "encode_shouldencode msg sbs f = Inl y \<Longrightarrow> y = Undefined"
  unfolding encode_shouldencode_def upb_getoneofcase_field_def
  by (auto simp: bind_Inl split: if_splits dest: reads_Undefined slot_nonzero_Undefined)

lemma ensures_UndefinedI:
  "E Undefined \<Longrightarrow> (\<And>y. m = Inl y \<Longrightarrow> y = Undefined) \<Longrightarrow> ensures E (\<lambda>_. True) m"
  by (auto simp: ensures_def)

lemma elem_mems_Undefined: "map_result (elem_mem h k) vs = Inl y \<Longrightarrow> y = Undefined"
  by (rule map_result_Undefined [of "elem_mem h k" vs]) (auto dest: reads_Undefined)

lemma ensures_read:
  assumes "E Undefined"
  shows "ensures E (\<lambda>_. True) (get_bool v)"
    and "ensures E (\<lambda>_. True) (get_u32 v)"
    and "ensures E (\<lambda>_. True) (get_u64 v)"
    and "ensures E (\<lambda>_. True) (get_strview v)"
    and "ensures E (\<lambda>_. True) (get_msg v)"
    and "ensures E (\<lambda>_. True) (get_array v)"
    and "ensures E (\<lambda>_. True) (get_map v)"
    and "ensures E (\<lambda>_. True) (UPB_PTR_AT sl ofs)"
    and "ensures E (\<lambda>_. True) (sub_at sbs i)"
    and "ensures E (\<lambda>_. True) (layout_at h l)"
    and "ensures E (\<lambda>_. True) (map_result (elem_mem h k) vs)"
    and "ensures E (\<lambda>_. True) (encode_shouldencode msg sbs f)"
    and "ensures E (\<lambda>_. True) (val_uint64 v)"
    and "ensures E (\<lambda>_. True) (val_uint32 v)"
    and "ensures E (\<lambda>_. True) (val_int32 v)"
    and "ensures E (\<lambda>_. True) (val_bool v)"
    and "ensures E (\<lambda>_. True) (val_sint32 v)"
    and "ensures E (\<lambda>_. True) (val_sint64 v)"
  by (rule ensures_UndefinedI [where E = E, OF assms],
      erule reads_Undefined vals_Undefined elem_mems_Undefined encode_shouldencode_Undefined)+

lemmas vcg = ensures_for_each ensures_Inr ensures_if ensures_option ensures_prod refl

text \<open>
  The rule for all emitters: an invariant \<open>I d\<close> of the state, indexed by the remaining
  depth \<open>d\<close>, that the two writing primitives keep, is kept by every emitter; and if the
  primitives end only with errors in \<open>E\<close>, and \<open>E\<close> holds of the depth error and of
  \<open>Undefined\<close>, every emitter ends only with errors in \<open>E\<close>.
\<close>

lemma encode_invariant:
  fixes I :: "int \<Rightarrow> upb_encstate \<Rightarrow> bool"
  assumes b: "\<And>d e x. I d e \<Longrightarrow> ensures E (I d) (encode_bytes e x)"
    and v: "\<And>d e x. I d e \<Longrightarrow> ensures E (I d) (encode_varint e x)"
    and dec: "\<And>d e. I d e \<Longrightarrow> I (d - 1) (e\<lparr>depth := depth e - 1\<rparr>)"
    and inc: "\<And>d e. I (d - 1) e \<Longrightarrow> I d (e\<lparr>depth := depth e + 1\<rparr>)"
    and E: "E MaxDepthExceeded" "E Undefined"
  shows "I d e \<Longrightarrow> ensures E (\<lambda>r. I d (fst r)) (encode_message_impl h e msg m)"
    and "I d e \<Longrightarrow> ensures E (I d) (encode_scalar_impl h e fm sbs f)"
    and "I d e \<Longrightarrow> ensures E (I d) (encode_array_impl h e sl sbs f)"
    and "I d e \<Longrightarrow> ensures E (I d) (encode_mapentry_impl h e num layout ent)"
    and "I d e \<Longrightarrow> ensures E (I d) (encode_map_impl h e sl sbs f)"
    and "I d e \<Longrightarrow> ensures E (I d) (encode_field_impl h e sl sbs f)"
    and "I d e \<Longrightarrow> ensures E (I d) (encode_msgset_item h e x)"
proof (induction h e msg m and h e fm sbs f and h e sl sbs f and h e num layout ent
       and h e sl sbs f and h e sl sbs f and h e x
       arbitrary: d and d and d and d and d and d and d
       rule: encode_message_impl_encode_scalar_impl_encode_array_impl_encode_mapentry_impl_encode_map_impl_encode_field_impl_encode_msgset_item.induct)
  have bind_st: "\<And>d' m Q f. ensures E (I d') m
      \<Longrightarrow> (\<And>r. m = Inr r \<Longrightarrow> I d' r \<Longrightarrow> ensures E Q (f r)) \<Longrightarrow> ensures E Q (bind m f)"
    by (rule ensures_bind)
  have bind_pr: "\<And>d' m Q f. ensures E (\<lambda>r. I d' (fst r)) m
      \<Longrightarrow> (\<And>r. m = Inr r \<Longrightarrow> I d' (fst r) \<Longrightarrow> ensures E Q (f r)) \<Longrightarrow> ensures E Q (bind m f)"
    by (rule ensures_bind)
  have bind_val: "\<And>m Q f. ensures E (\<lambda>_. True) m
      \<Longrightarrow> (\<And>r. m = Inr r \<Longrightarrow> ensures E Q (f r)) \<Longrightarrow> ensures E Q (bind m f)"
    by (rule ensures_bind)
  note rd = ensures_read [of E, OF E(2)]
  have err: "\<And>Q. ensures E Q (Inl MaxDepthExceeded)" "\<And>Q. ensures E Q (Inl Undefined)"
    by (simp_all add: ensures_def E)
  have fsti: "\<And>d s x. I d s \<Longrightarrow> I d (fst (s, x))"
    by simp
  have inc2: "\<And>d e x. I (d - 1) e \<Longrightarrow> I d (fst (e\<lparr>depth := depth e + 1\<rparr>, x))"
    by (simp add: inc)
  have t: "\<And>d e n w. I d e \<Longrightarrow> ensures E (I d) (encode_tag e n w)"
    by (simp add: encode_tag_def v)
  have fx: "\<And>d e h x. I d e \<Longrightarrow> ensures E (I d) (encode_fixed64 h e x)"
    "\<And>d e h y. I d e \<Longrightarrow> ensures E (I d) (encode_fixed32 h e y)"
    "\<And>d e h x. I d e \<Longrightarrow> ensures E (I d) (encode_double h e x)"
    "\<And>d e h y. I d e \<Longrightarrow> ensures E (I d) (encode_float h e y)"
    by (simp_all add: encode_fixed64_def encode_fixed32_def encode_double_def encode_float_def
          Let_def b)
  note prims = b v t fx
  note basic = prims bind_st bind_pr rd err bind_val vcg
  have cv: "\<And>d e rd fm. (\<And>x. ensures E (\<lambda>_. True) (rd x)) \<Longrightarrow> I d e
      \<Longrightarrow> ensures E (\<lambda>r. I d (fst r)) (CASE_varint rd e fm)"
    unfolding CASE_varint_def
    by ((rule fsti, assumption) | rule basic | assumption)+
  have vc: "\<And>d e rd arr packed f. (\<And>x. ensures E (\<lambda>_. True) (rd x)) \<Longrightarrow> I d e
      \<Longrightarrow> ensures E (I d) (VARINT_CASE rd e arr packed f)"
    unfolding VARINT_CASE_def Let_def
    by ((rule fsti, assumption) | rule basic | assumption)+
  have fa: "\<And>d e h arr k tag. I d e \<Longrightarrow> ensures E (I d) (encode_fixedarray_impl h e arr k tag)"
    unfolding encode_fixedarray_impl_def
    by ((rule fsti, assumption) | rule basic | assumption)+
  note rules = dec inc2 cv vc fa basic
  {
    case (1 h e field_mem sbs f)
    note J = "1.prems" and IH = "1.IH"
    show ?case
      apply (subst encode_scalar_impl.simps)
      apply (cases "descriptortype f"; simp only: descriptortype.case Let_def)
                       apply (((rule IH; (assumption | rule refl | (rule dec, rule J) | rule J))
            | (rule fsti, (assumption | rule J)) | rule J rules | assumption)+)
      done
  next
    case (2 h e msg sbs f)
    note J = "2.prems" and IH = "2.IH"
    show ?case
      apply (subst encode_array_impl.simps)
      apply (cases "descriptortype f"; simp only: descriptortype.case Let_def)
                       apply (((rule IH; (assumption | rule refl | (rule dec, rule J) | rule J))
            | (rule fsti, (assumption | rule J)) | rule J rules | assumption)+)
      done
  next
    case (3 h e num layout ent)
    note J = "3.prems" and IH = "3.IH"
    show ?case
      apply (subst encode_mapentry_impl.simps)
      apply (simp only: Let_def)
      apply (((rule IH; (assumption | rule refl | (rule dec, rule J) | rule J))
            | (rule fsti, (assumption | rule J)) | rule J rules | assumption)+)
      done
  next
    case (4 h e msg sbs f)
    note J = "4.prems" and IH = "4.IH"
    show ?case
      apply (subst encode_map_impl.simps)
      apply (((rule IH; (assumption | rule refl | (rule dec, rule J) | rule J))
            | (rule fsti, (assumption | rule J)) | rule J rules | assumption)+)
      done
  next
    case (5 h e msg sbs field)
    note J = "5.prems" and IH = "5.IH"
    show ?case
      apply (subst encode_field_impl.simps)
      apply (cases "mode field"; simp only: field_mode.case)
        apply (((rule IH; (assumption | rule refl | (rule dec, rule J) | rule J))
            | (rule fsti, (assumption | rule J)) | rule J rules | assumption)+)
      done
  next
    case (6 h e x)
    note J = "6.prems" and IH = "6.IH"
    show ?case
      apply (subst encode_msgset_item.simps)
      apply (((rule IH; (assumption | rule refl | (rule dec, rule J) | rule J))
            | (rule fsti, (assumption | rule J)) | rule J rules | assumption)+)
      done
  next
    case (7 h e msg m)
    note J = "7.prems" and IH = "7.IH"
    show ?case
      apply (subst encode_message_impl.simps)
      apply (simp only: Let_def)
      apply (((rule IH; (assumption | rule refl | (rule dec, rule J) | rule J))
            | (rule fsti, (assumption | rule J)) | rule J rules | assumption)+)
      done
  }
qed

subsection \<open>What the emitters keep of the state\<close>

lemma encode_bytes_depth: "encode_bytes e x = Inr e' \<Longrightarrow> depth e' = depth e"
  by (auto simp: encode_bytes_def encode_reserve_def encode_growbuffer_def Let_def bind_Inr
           split: if_splits option.splits)

lemma encode_varint_depth: "encode_varint e x = Inr e' \<Longrightarrow> depth e' = depth e"
  by (auto simp: encode_varint_def encode_longvarint_def encode_reserve_def encode_growbuffer_def
           Let_def bind_Inr split: if_splits option.splits)

lemma kept_bytes: "kept opts g w d e \<Longrightarrow> ensures (\<lambda>_. True) (kept opts g w d) (encode_bytes e x)"
  unfolding ensures_def kept_def
  using encode_bytes_Inr [of e x] by (auto simp: suffix_appendI)

lemma kept_varint: "kept opts g w d e \<Longrightarrow> ensures (\<lambda>_. True) (kept opts g w d) (encode_varint e x)"
  unfolding ensures_def kept_def
  using encode_varint_Inr [of e x] by (auto simp: suffix_appendI)

lemma written_depth_update [simp]: "written (e\<lparr>depth := d\<rparr>) = written e"
  by (simp add: written_def)

lemma buffer_inv_depth_update [simp]: "buffer_inv (e\<lparr>depth := d\<rparr>) = buffer_inv e"
  by (simp add: buffer_inv_def)

lemma kept_dec: "kept opts g w d e \<Longrightarrow> kept opts g w (d - 1) (e\<lparr>depth := depth e - 1\<rparr>)"
  by (simp add: kept_def)

lemma kept_inc: "kept opts g w (d - 1) e \<Longrightarrow> kept opts g w d (e\<lparr>depth := depth e + 1\<rparr>)"
  by (simp add: kept_def)

lemma encode_kept:
  shows "kept opts g w d e \<Longrightarrow> ensures (\<lambda>_. True) (\<lambda>r. kept opts g w d (fst r)) (encode_message_impl h e msg m)"
    and "kept opts g w d e \<Longrightarrow> ensures (\<lambda>_. True) (kept opts g w d) (encode_scalar_impl h e fm sbs f)"
    and "kept opts g w d e \<Longrightarrow> ensures (\<lambda>_. True) (kept opts g w d) (encode_array_impl h e sl sbs f)"
    and "kept opts g w d e \<Longrightarrow> ensures (\<lambda>_. True) (kept opts g w d) (encode_mapentry_impl h e num layout ent)"
    and "kept opts g w d e \<Longrightarrow> ensures (\<lambda>_. True) (kept opts g w d) (encode_map_impl h e sl sbs f)"
    and "kept opts g w d e \<Longrightarrow> ensures (\<lambda>_. True) (kept opts g w d) (encode_field_impl h e sl sbs f)"
    and "kept opts g w d e \<Longrightarrow> ensures (\<lambda>_. True) (kept opts g w d) (encode_msgset_item h e x)"
  by (rule encode_invariant [where I = "kept opts g w" and E = "\<lambda>_. True"];
      (erule kept_bytes kept_varint kept_dec kept_inc | assumption | simp))+

lemma kept_start: "buffer_inv e \<Longrightarrow> kept (options e) (grant (alloc e)) (written e) (depth e) e"
  by (simp add: kept_def)

text \<open>The same for the depth alone, which needs nothing of the state.\<close>

lemma encode_depth:
  shows "depth e = d \<Longrightarrow> ensures (\<lambda>_. True) (\<lambda>r. depth (fst r) = d) (encode_message_impl h e msg m)"
    and "depth e = d \<Longrightarrow> ensures (\<lambda>_. True) (\<lambda>r. depth r = d) (encode_scalar_impl h e fm sbs f)"
    and "depth e = d \<Longrightarrow> ensures (\<lambda>_. True) (\<lambda>r. depth r = d) (encode_array_impl h e sl sbs f)"
    and "depth e = d \<Longrightarrow> ensures (\<lambda>_. True) (\<lambda>r. depth r = d) (encode_mapentry_impl h e num layout ent)"
    and "depth e = d \<Longrightarrow> ensures (\<lambda>_. True) (\<lambda>r. depth r = d) (encode_map_impl h e sl sbs f)"
    and "depth e = d \<Longrightarrow> ensures (\<lambda>_. True) (\<lambda>r. depth r = d) (encode_field_impl h e sl sbs f)"
    and "depth e = d \<Longrightarrow> ensures (\<lambda>_. True) (\<lambda>r. depth r = d) (encode_msgset_item h e x)"
  by (rule encode_invariant [where I = "\<lambda>d e. depth e = d" and E = "\<lambda>_. True"];
      (simp add: ensures_def encode_bytes_depth encode_varint_depth; fail))+



section \<open>Evaluation of the encoder on concrete messages\<close>

lemmas ex_defs = start_def field_at8_def msg1_def layout1_def example_layouts_def
  little_endian_host_def big_endian_host_def grant_all_def

lemmas wire_defs = UPB_WIRE_TYPE_VARINT_def UPB_WIRE_TYPE_64BIT_def UPB_WIRE_TYPE_DELIMITED_def
  UPB_WIRE_TYPE_START_GROUP_def UPB_WIRE_TYPE_END_GROUP_def UPB_WIRE_TYPE_32BIT_def
  UPB_ENCODE_DETERMINISTIC_def UPB_ENCODE_SKIPUNKNOWN_def

lemmas prim_defs = encode_tag_def encode_varint_def encode_longvarint_def encode_reserve_def
  encode_growbuffer_def encode_bytes_def upb_malloc_def memcpy_def bind_def Let_def
  upb_roundup_pow2_def roundup_loop.simps

lemmas read_defs = UPB_PTR_AT_def sub_at_def layout_at_def get_bool_def get_u32_def get_u64_def
  get_strview_def get_msg_def get_array_def get_map_def val_uint64_def val_uint32_def val_int32_def
  val_bool_def val_sint32_def val_sint64_def CASE_varint_def VARINT_CASE_def TAG_def
  encode_shouldencode_def upb_hasbit_field_def upb_getoneofcase_field_def is_pointer_nonnull_def


lemma varint64_examples:
  "encode_varint64 (- 1) = [0xFF, 0xFF, 0xFF, 0xFF, 0xFF, 0xFF, 0xFF, 0xFF, 0xFF, 0x01]"
  "encode_varint64 150 = [0x96, 0x01]"
  "encode_varint64 0 = [0]" "encode_varint64 1 = [1]" "encode_varint64 2 = [2]"
  "encode_varint64 3 = [3]" "encode_varint64 4 = [4]" "encode_varint64 7 = [7]"
  "encode_varint64 8 = [8]" "encode_varint64 10 = [0x0a]" "encode_varint64 16 = [0x10]"
  "encode_varint64 20 = [0x14]" "encode_varint64 58 = [0x3a]"
proof -
  have e: "(- 1 :: u64) = 0xFFFFFFFFFFFFFFFF" by simp
  have "encode_varint64 0xFFFFFFFFFFFFFFFF = [0xFF, 0xFF, 0xFF, 0xFF, 0xFF, 0xFF, 0xFF, 0xFF, 0xFF, 0x01]"
    by (simp add: encode_varint64.simps)
  then show "encode_varint64 (- 1) = [0xFF, 0xFF, 0xFF, 0xFF, 0xFF, 0xFF, 0xFF, 0xFF, 0xFF, 0x01]"
    by (simp only: e)
qed (simp_all add: encode_varint64.simps)



lemma drop_replicate_append: "n \<le> k \<Longrightarrow> drop n (replicate k x @ ys) = replicate (k - n) x @ ys"
  by simp

lemma update_replicate:
  "i < k \<Longrightarrow> (replicate k x)[i := y] = replicate i x @ y # replicate (k - Suc i) x"
  by (auto simp: list_eq_iff_nth_eq nth_append nth_Cons' nth_list_update)

lemmas buf_simps = written_def list_update_append update_replicate drop_replicate_append


lemma replicate_app_same [simp]:
  "replicate a x @ replicate b x @ ys = replicate (a + b) x @ ys"
  "replicate a x @ replicate b x = replicate (a + b) x"
  by (simp_all add: replicate_add)

lemma for_each_skip:
  "(\<And>x s. x \<in> set xs \<Longrightarrow> body x s = Inr s) \<Longrightarrow> for_each body xs e = Inr e"
  by (induction xs) (simp_all add: bind_def)

lemma encode_message_empty:
  assumes L: "layouts h l = Some L"
    and u: "unknown msg = None \<or> unknown msg = Some []"
    and x: "exts msg = []"
    and f: "\<And>f. f \<in> set (fields' L) \<Longrightarrow> encode_shouldencode msg (subs L) f = Inr False"
  shows "encode_message_impl h e msg l = Inr (e, 0)"
proof -
  have 1: "(if options e AND UPB_ENCODE_SKIPUNKNOWN = 0
            then (case unknown msg of None \<Rightarrow> Inr e | Some unk \<Rightarrow> encode_bytes e (map Some unk))
            else Inr e) = Inr e"
    using u by (auto simp: encode_bytes_def)
  have 2: "for_each (\<lambda>f e. bind (encode_shouldencode msg (subs L) f)
              (\<lambda>should. if should then encode_field_impl h e (slots msg) (subs L) f else Inr e))
            (rev (fields' L)) e = Inr e"
    by (rule for_each_skip) (simp add: f bind_def)
  show ?thesis
    by (subst encode_message_impl.simps) (auto simp add: Let_def 1 2 layout_at_def L x bind_Inr)
qed



section \<open>Writing cannot fail while the allocator grants\<close>


lemma ok_pres: "ok e \<Longrightarrow> buffer_inv e' \<Longrightarrow> grant (alloc e') = grant (alloc e) \<Longrightarrow> ok e'"
  by (simp add: ok_def)

lemma encode_reserve_ok:
  assumes "ok e"
  shows "\<exists>e'. encode_reserve e n = Inr e'"
proof -
  obtain k where k: "upb_roundup_pow2 (n + (length (buf e) - ptr e)) = Some k"
    using upb_roundup_pow2_Some by blast
  from assms have "upb_malloc (alloc e) k \<noteq> None" by (simp add: upb_malloc_def ok_def)
  then show ?thesis
    by (auto simp: encode_reserve_def encode_growbuffer_def Let_def k)
qed

lemma encode_bytes_emits: "ok e \<Longrightarrow> emits e d (encode_bytes e d)"
proof -
  assume o: "ok e"
  from encode_reserve_ok [OF o] obtain e1 where "encode_reserve e (length d) = Inr e1" by blast
  then have "\<exists>e'. encode_bytes e d = Inr e'" by (simp add: encode_bytes_def bind_def)
  then obtain e' where e': "encode_bytes e d = Inr e'" by blast
  from o have b: "buffer_inv e" by (simp add: ok_def)
  from encode_bytes_Inr [OF e' b] ok_pres [OF o, of e'] show ?thesis
    by (simp add: emits_def e')
qed

lemma encode_varint_emits: "ok e \<Longrightarrow> emits e (map Some (encode_varint64 v)) (encode_varint e v)"
proof -
  assume o: "ok e"
  from encode_reserve_ok [OF o] obtain e1 where "encode_reserve e 16 = Inr e1" by blast
  then have "\<exists>e'. encode_varint e v = Inr e'"
    by (simp add: encode_varint_def encode_longvarint_def Let_def bind_def)
  then obtain e' where e': "encode_varint e v = Inr e'" by blast
  from o have b: "buffer_inv e" by (simp add: ok_def)
  from encode_varint_Inr [OF e' b] ok_pres [OF o, of e'] show ?thesis
    by (simp add: emits_def e')
qed

lemma encode_tag_emits:
  "ok e \<Longrightarrow> emits e (map Some (encode_varint64 (ucast (push_bit 3 n OR wt)))) (encode_tag e n wt)"
  unfolding encode_tag_def by (rule encode_varint_emits)

lemma emits_bind:
  assumes "emits e w1 m"
    and "\<And>e1. m = Inr e1 \<Longrightarrow> ok e1 \<Longrightarrow> written e1 = w1 @ written e \<Longrightarrow> depth e1 = depth e
           \<Longrightarrow> options e1 = options e \<Longrightarrow> emits e1 w2 (f e1)"
  shows "emits e (w2 @ w1) (bind m f)"
  using assms by (auto simp: emits_def bind_def)


lemma emits_Inr: "ok e \<Longrightarrow> emits e [] (Inr e)"
  by (simp add: emits_def)


lemma encode_varint_Inl:
  assumes "encode_varint e v = Inl x"
  shows "x = OutOfMemory \<and> ptr e < 16 \<and> (\<exists>n. \<not> grant (alloc e) (calls (alloc e)) n)"
proof -
  obtain k where k: "upb_roundup_pow2 (16 + (length (buf e) - ptr e)) = Some k"
    using upb_roundup_pow2_Some by blast
  from assms have r: "encode_reserve e 16 = Inl x"
    by (auto simp: encode_varint_def encode_longvarint_def Let_def bind_def
        split: if_splits sum.splits)
  then have p: "ptr e < 16" and g: "encode_growbuffer e 16 = Inl x"
    by (auto simp: encode_reserve_def split: if_splits)
  from g k have "upb_malloc (alloc e) k = None \<and> x = OutOfMemory"
    by (auto simp: encode_growbuffer_def Let_def split: option.splits)
  then have "\<not> grant (alloc e) (calls (alloc e)) k \<and> x = OutOfMemory"
    by (auto simp: upb_malloc_def split: if_splits)
  with p show ?thesis by blast
qed



lemma emits_for_each:
  assumes "\<And>x e1. x \<in> set xs \<Longrightarrow> ok e1 \<Longrightarrow> depth e1 = depth e \<Longrightarrow> options e1 = options e
             \<Longrightarrow> emits e1 (seg x) (body x e1)"
    and "ok e"
  shows "emits e (concat (map seg (rev xs))) (for_each body xs e)"
  using assms
proof (induction xs arbitrary: e)
  case Nil
  then show ?case by (simp add: emits_def)
next
  case (Cons x xs)
  have 1: "emits e (seg x) (body x e)" using Cons.prems by simp
  have "emits e (concat (map seg (rev xs)) @ seg x) (bind (body x e) (for_each body xs))"
  proof (rule emits_bind [OF 1])
    fix e1 assume "ok e1" "depth e1 = depth e" "options e1 = options e"
    then show "emits e1 (concat (map seg (rev xs))) (for_each body xs e1)"
      using Cons.prems(1) by (intro Cons.IH) simp_all
  qed
  then show ?case by simp
qed



section \<open>Messages that hold nothing to encode\<close>


lemma upb_encode_ex_initial:
  "upb_encode_ex h msg l opts arena =
     (case encode_message_impl h (initial opts arena) msg l of
        Inl Undefined \<Rightarrow> None
      | Inl _ \<Rightarrow> Some (NULL, 0, [])
      | Inr (e, sz) \<Rightarrow>
          if length (buf e) - ptr e = 0 then Some (Static_ch, 0, buf e)
          else Some (Buffer (ptr e), length (buf e) - ptr e, buf e))"
  by (simp add: upb_encode_ex_def initial_def Let_def split: sum.splits error.splits prod.splits)

lemma absent_step:
  assumes "absent h msg sbs f"
  shows "bind (encode_shouldencode msg sbs f)
           (\<lambda>should. if should then encode_field_impl h e (slots msg) sbs f else Inr e) = Inr e"
proof (cases "encode_shouldencode msg sbs f")
  case (Inl x)
  with assms show ?thesis by (simp add: absent_def)
next
  case (Inr should)
  show ?thesis
  proof (cases should)
    case False
    with Inr show ?thesis by (simp add: bind_def)
  next
    case True
    with Inr assms have n: "holds_nothing h msg sbs f" by (simp add: absent_def)
    have "encode_field_impl h e (slots msg) sbs f = Inr e"
    proof (cases "mode f")
      case UPB_MODE_ARRAY
      with n show ?thesis
        by (subst encode_field_impl.simps, simp, subst encode_array_impl.simps)
           (auto simp: holds_nothing_def bind_def get_array_def Let_def)
    next
      case UPB_MODE_MAP
      with n show ?thesis
        by (subst encode_field_impl.simps, simp, subst encode_map_impl.simps)
           (auto simp: holds_nothing_def bind_def get_map_def layout_at_def sortedmap_def
                 split: sum.splits option.splits)
    next
      case UPB_MODE_SCALAR
      with n show ?thesis
        by (subst encode_field_impl.simps, simp, subst encode_scalar_impl.simps)
           (auto simp: holds_nothing_def bind_def get_msg_def sub_at_def)
    qed
    with Inr True show ?thesis by (simp add: bind_def)
  qed
qed

lemma encode_message_nothing:
  assumes L: "layouts h l = Some L"
    and u: "unknown msg = None \<or> unknown msg = Some [] \<or> options e AND UPB_ENCODE_SKIPUNKNOWN \<noteq> 0"
    and x: "ext L = UPB_MSGEXT_NONE \<or> exts msg = []"
    and f: "\<forall>f \<in> set (fields' L). absent h msg (subs L) f"
  shows "encode_message_impl h e msg l = Inr (e, 0)"
proof -
  have 1: "(if options e AND UPB_ENCODE_SKIPUNKNOWN = 0
            then (case unknown msg of None \<Rightarrow> Inr e | Some unk \<Rightarrow> encode_bytes e (map Some unk))
            else Inr e) = Inr e"
    using u by (auto simp: encode_bytes_def)
  have 2: "for_each (\<lambda>f e. bind (encode_shouldencode msg (subs L) f)
              (\<lambda>should. if should then encode_field_impl h e (slots msg) (subs L) f else Inr e))
            (rev (fields' L)) e = Inr e"
    by (rule for_each_skip) (simp add: f absent_step)
  have 3: "(if ext L \<noteq> UPB_MSGEXT_NONE
            then for_each (\<lambda>x e.
                   if ext L = UPB_MSGEXT_MSGSET then encode_msgset_item h e x
                   else encode_field_impl h e [(0, ext_data x)] [ext_sub x] (ext_field x))
                 (exts msg) e
            else Inr e) = Inr e"
    using x by auto
  show ?thesis
    by (subst encode_message_impl.simps) (auto simp add: Let_def 1 2 3 layout_at_def L bind_Inr)
qed



section \<open>Negative 32-bit integers\<close>


lemma uint_scast_neg:
  assumes "sint (w::u32) < 0"
  shows "uint (scast w :: u64) = 2 ^ 64 + sint w"
proof -
  have b: "- (2 ^ 31) \<le> sint w" using sint_ge [of w] by simp
  have "uint (scast w :: u64) = sint w mod 2 ^ 64"
    by (subst scast_eq) (simp add: uint_word_of_int_eq take_bit_eq_mod del: of_int_sint)
  also have "\<dots> = (sint w + 2 ^ 64) mod 2 ^ 64" by simp
  also have "\<dots> = sint w + 2 ^ 64" using assms b by (intro mod_pos_pos_trivial) simp_all
  finally show ?thesis by simp
qed

lemma length_encode_varint64_ge:
  "2 ^ (7 * k) \<le> unat v \<Longrightarrow> k < length (encode_varint64 v)"
proof (induction k arbitrary: v)
  case 0
  show ?case by (rule length_encode_varint64_pos)
next
  case (Suc k)
  have "(128::nat) \<le> 2 ^ (7 * Suc k)"
    using one_le_power [of "2::nat" "7 * k"] by (simp add: power_add)
  with Suc.prems have big: "128 \<le> unat v" by linarith
  then have gt: "127 < v" by (simp add: word_less_nat_alt)
  have "2 ^ (7 * k) * 128 \<le> unat v" using Suc.prems by (simp add: power_add mult.commute)
  then have "2 ^ (7 * k) \<le> unat v div 128" by (simp add: less_eq_div_iff_mult_less_eq)
  then have "2 ^ (7 * k) \<le> unat (drop_bit 7 v)" by (simp add: drop_bit_eq_div unat_div)
  from Suc.IH [OF this] gt show ?case
    by (subst encode_varint64.simps) simp
qed

lemma length_encode_varint64_neg:
  assumes "sint (w::u32) < 0"
  shows "length (encode_varint64 (scast w)) = 10"
proof -
  have b: "- (2 ^ 31) \<le> sint w" using sint_ge [of w] by simp
  from uint_scast_neg [OF assms] b have u: "(2::int) ^ 63 \<le> uint (scast w :: u64)" by simp
  have n: "nat ((2::int) ^ 63) = (2::nat) ^ 63" by simp
  have m: "nat (uint (scast w :: u64)) = unat (scast w :: u64)" by (rule unat_eq_nat_uint [symmetric])
  have "nat ((2::int) ^ 63) \<le> nat (uint (scast w :: u64))" using u by (rule nat_mono)
  then have "(2::nat) ^ 63 \<le> unat (scast w :: u64)" unfolding n m .
  then have "9 < length (encode_varint64 (scast w))"
    using length_encode_varint64_ge [of 9 "scast w"] by simp
  with length_encode_varint64_le [of "scast w"] show ?thesis by simp
qed


lemma int32_scalar_eq:
  assumes "descriptortype f = UPB_DESCRIPTOR_TYPE_INT32 \<or> descriptortype f = UPB_DESCRIPTOR_TYPE_ENUM"
  shows "encode_scalar_impl h e (V4 w) sbs f
         = bind (encode_varint e (scast w)) (\<lambda>e1. encode_tag e1 (number f) UPB_WIRE_TYPE_VARINT)"
  using assms
  by (subst encode_scalar_impl.simps)
     (auto simp: CASE_varint_def val_int32_def get_u32_def bind_def split: sum.splits)

lemma S2_eval:
  "upb_encode_ex little_endian_host (msg1 (V4 (- 1))) 1 0 grant_all
   = Some (Buffer 117, 11, replicate 117 None @
       map Some [0x08, 0xff, 0xff, 0xff, 0xff, 0xff, 0xff, 0xff, 0xff, 0xff, 0x01])"
  apply (simp add: upb_encode_ex_initial initial_def)
  apply (subst encode_message_impl.simps)
  apply (simp add: encode_field_impl.simps encode_scalar_impl.simps ex_defs wire_defs prim_defs
      read_defs varint64_examples buf_simps)
  done

lemma ok_start: "ok (start opts d)"
  by (simp add: ok_def buffer_inv_def start_def grant_all_def)



section \<open>Fixed-width values\<close>

lemma map_result_elem_mem32: "map_result (elem_mem h 4) (map V4 ws) = Inr (map (mem_bytes32 h) ws)"
  by (induction ws) (simp_all add: elem_mem_def bind_def)

lemma map_result_elem_mem64: "map_result (elem_mem h 8) (map V8 ws) = Inr (map (mem_bytes64 h) ws)"
  by (induction ws) (simp_all add: elem_mem_def bind_def)

lemma fixedarray_emits:
  assumes "map_result (elem_mem h n) arr = Inr data" "ok e"
  shows "emits e (concat (map (\<lambda>d. (if tag = 0 then [] else map Some (encode_varint64 (ucast tag)))
                               @ map Some d) data))
          (encode_fixedarray_impl h e arr n tag)"
proof (cases "tag = 0")
  case True
  have "emits e (map Some (concat data)) (encode_bytes e (map Some (concat data)))"
    by (rule encode_bytes_emits [OF assms(2)])
  with True show ?thesis
    by (simp add: encode_fixedarray_impl_def assms(1) bind_def map_concat comp_def)
next
  case False
  have "emits e (concat (map (\<lambda>d. map Some (encode_varint64 (ucast tag)) @ map Some d) (rev (rev data))))
          (for_each (\<lambda>elem e. bind (encode_bytes e (map Some elem)) (\<lambda>e. encode_varint e (ucast tag)))
             (rev data) e)"
  proof (rule emits_for_each [OF _ assms(2)])
    fix x e1 assume "ok e1"
    then show "emits e1 (map Some (encode_varint64 (ucast tag)) @ map Some x)
                (bind (encode_bytes e1 (map Some x)) (\<lambda>e. encode_varint e (ucast tag)))"
      by (intro emits_bind encode_bytes_emits encode_varint_emits)
  qed
  with False show ?thesis
    by (simp add: encode_fixedarray_impl_def assms(1) bind_def)
qed

lemma mem_le32: "mem_bytes32 h (upb_be_swap32 h v) = le_bytes32 v"
proof (cases "big_endian h")
  case False
  then show ?thesis by (simp add: mem_bytes32_def upb_be_swap32_def)
next
  case True
  have "le_bytes32 (push_bit 24 (take_bit 8 v) OR push_bit 16 (take_bit 8 (drop_bit 8 v))
           OR push_bit 8 (take_bit 8 (drop_bit 16 v)) OR drop_bit 24 v) = rev (le_bytes32 v)"
    unfolding le_bytes32_def
    apply simp
    apply (intro conjI; rule bit_word_eqI; auto simp: bit_simps)
    done
  with True show ?thesis by (simp add: mem_bytes32_def upb_be_swap32_def)
qed

lemma encode_fixed32_emits: "ok e \<Longrightarrow> emits e (map Some (le_bytes32 v)) (encode_fixed32 h e v)"
  by (simp add: encode_fixed32_def Let_def mem_le32 encode_bytes_emits)


lemma packed_fixed32_big_endian_eval:
  "upb_encode_ex big_endian_host (msg1 (VArr (Some [V4 1]))) 5 0 grant_all
   = Some (Buffer 122, 6, replicate 122 None @ map Some [0x0a, 0x04, 0, 0, 0, 1])"
  apply (simp add: upb_encode_ex_initial initial_def)
  apply (subst encode_message_impl.simps)
  apply (simp add: encode_field_impl.simps encode_array_impl.simps encode_fixedarray_impl_def
      elem_mem_def mem_bytes32_def le_bytes32_def ex_defs wire_defs prim_defs
      read_defs varint64_examples buf_simps)
  done



section \<open>Where the errors come from\<close>


lemma ok_depth_update [simp]: "ok (e\<lparr>depth := d\<rparr>) = ok e"
  by (simp add: ok_def buffer_inv_def)



lemma unallocated_depth_update [simp]: "unallocated (e\<lparr>depth := d\<rparr>) = unallocated e"
  by (simp add: unallocated_def)









section \<open>Chains of nested messages\<close>
















section \<open>Packed repeated fields\<close>


















text \<open>
  C2. The varint emitter writes the base-128 little-endian encoding of the 64-bit value,
  at most 10 bytes long, in front of what was written before; and where the fast path
  applies (value below 128, a free byte in front of the cursor), the slow path through
  the scratch array writes exactly the same bytes.  The emitter does write: it returns
  normally whenever the allocator grants every request, and when it does not return
  normally the error is out-of-memory, fewer than 16 bytes were free and the allocator
  refused the request made.
\<close>

theorem encode_varint_base128:
  assumes "buffer_inv e"
  shows "base128_wf (encode_varint64 val)
       \<and> base128_value (encode_varint64 val) = unat val
       \<and> length (encode_varint64 val) \<le> 10
       \<and> (\<forall>e'. encode_varint e val = Inr e' \<longrightarrow>
              written e' = map Some (encode_varint64 val) @ written e)
       \<and> (\<forall>e2. val < 128 \<and> ptr e \<noteq> 0 \<and> encode_longvarint e val = Inr e2 \<longrightarrow>
              (\<exists>e1. encode_varint e val = Inr e1 \<and> written e1 = written e2
                    \<and> e1 = e\<lparr>ptr := ptr e - 1, buf := (buf e)[ptr e - 1 := Some (ucast val)]\<rparr>))
       \<and> ((\<forall>k n. grant (alloc e) k n) \<longrightarrow>
              (\<exists>e'. encode_varint e val = Inr e'
                    \<and> written e' = map Some (encode_varint64 val) @ written e))
       \<and> (\<forall>x. encode_varint e val = Inl x \<longrightarrow>
              x = OutOfMemory \<and> ptr e < 16 \<and> (\<exists>n. \<not> grant (alloc e) (calls (alloc e)) n))"
proof (intro conjI allI impI)
  show "base128_wf (encode_varint64 val)" by (rule base128_wf_encode_varint64)
  show "base128_value (encode_varint64 val) = unat val" by (rule base128_value_encode_varint64)
  show "length (encode_varint64 val) \<le> 10" by (rule length_encode_varint64_le)
next
  fix e' assume "encode_varint e val = Inr e'"
  from encode_varint_Inr [OF this assms]
  show "written e' = map Some (encode_varint64 val) @ written e" by simp
next
  fix e2 assume a: "val < 128 \<and> ptr e \<noteq> 0 \<and> encode_longvarint e val = Inr e2"
  let ?e1 = "e\<lparr>ptr := ptr e - 1, buf := (buf e)[ptr e - 1 := Some (ucast val)]\<rparr>"
  from a have fast: "encode_varint e val = Inr ?e1" by (simp add: encode_varint_def)
  from a have slow: "encode_longvarint e val = Inr e2" by simp
  from encode_longvarint_Inr [OF slow assms] encode_varint_Inr [OF fast assms]
  have "written ?e1 = written e2" by simp
  with fast show "\<exists>e1. encode_varint e val = Inr e1 \<and> written e1 = written e2 \<and> e1 = ?e1"
    by simp
next
  assume "\<forall>k n. grant (alloc e) k n"
  with assms have "ok e" by (simp add: ok_def)
  from encode_varint_emits [OF this, of val]
  show "\<exists>e'. encode_varint e val = Inr e'
          \<and> written e' = map Some (encode_varint64 val) @ written e"
    by (auto simp: emits_def)
next
  fix x assume "encode_varint e val = Inl x"
  then show "x = OutOfMemory" "ptr e < 16" "\<exists>n. \<not> grant (alloc e) (calls (alloc e)) n"
    by (auto dest: encode_varint_Inl)
qed

theorem encode_varint_base128_witness:
  "buffer_inv one_free_byte
   \<and> encode_varint one_free_byte 5 = Inr (one_free_byte\<lparr>ptr := 0, buf := [Some 5]\<rparr>)
   \<and> (\<exists>e2. encode_longvarint one_free_byte 5 = Inr e2 \<and> written e2 = [Some 5])
   \<and> encode_varint64 300 = [0xAC, 0x02]
   \<and> base128_value [0xAC, 0x02] = 300
   \<and> (\<exists>e'. encode_varint one_free_byte 300 = Inr e' \<and> written e' = [Some 0xAC, Some 0x02])"
proof -
  have i: "buffer_inv one_free_byte"
    by (simp add: buffer_inv_def one_free_byte_def)
  have v: "encode_varint64 5 = [5]"
    by (simp add: encode_varint64.simps)
  have r: "upb_roundup_pow2 16 = Some 128"
    by (simp add: upb_roundup_pow2_def roundup_loop.simps)
  have l: "encode_longvarint one_free_byte 5
      = Inr (one_free_byte\<lparr>ptr := 127, alloc := grant_all\<lparr>calls := 1\<rparr>,
               buf := replicate 112 None @ replicate 15 None @ [Some 5]\<rparr>)"
    by (simp add: encode_longvarint_def v Let_def encode_reserve_def encode_growbuffer_def r
        upb_malloc_def grant_all_def one_free_byte_def bind_def memcpy_def)
  have w: "written (one_free_byte\<lparr>ptr := 127, alloc := grant_all\<lparr>calls := 1\<rparr>,
               buf := replicate 112 None @ replicate 15 None @ [Some 5]\<rparr>) = [Some 5]"
    by (simp add: written_def)
  have f: "encode_varint one_free_byte 5 = Inr (one_free_byte\<lparr>ptr := 0, buf := [Some 5]\<rparr>)"
    using encode_varint_base128 [OF i, of 5] l by (simp add: one_free_byte_def)
  have e: "encode_varint64 300 = [0xAC, 0x02]"
    by (simp add: encode_varint64.simps)
  have g: "\<forall>k n. grant (alloc one_free_byte) k n"
    by (simp add: one_free_byte_def grant_all_def)
  have s: "\<exists>e'. encode_varint one_free_byte 300 = Inr e' \<and> written e' = [Some 0xAC, Some 0x02]"
    using encode_varint_base128 [OF i, of 300] g
    by (simp add: e written_def one_free_byte_def)
  from i f l w e s show ?thesis by simp
qed



section \<open>The empty message\<close>

text \<open>C7: whenever the message emitter, started by \<open>upb_encode_ex\<close>, returns
  having written zero bytes, \<open>upb_encode_ex\<close> returns size 0 and the address of its
  static placeholder byte.  This is what happens for every message with no unknown
  fields (or with the skip-unknown option), no extensions and no declared field that
  holds something to encode (a field the presence test rejects, a null or empty array
  or map, a null sub-message): the emitter returns without writing and without
  allocating, for every arena (also one that grants nothing) and every option word.
  The placeholder is not the null pointer, and \<open>upb_encode_ex\<close> returns the null
  pointer exactly when the emitter ended with an error.\<close>

theorem empty_message_placeholder:
  "(\<forall>e' sz. encode_message_impl h (initial opts arena) msg l = Inr (e', sz) \<and> written e' = []
       \<longrightarrow> upb_encode_ex h msg l opts arena = Some (Static_ch, 0, buf e'))
   \<and> (layouts h l = Some L
       \<and> (unknown msg = None \<or> unknown msg = Some [] \<or> opts AND UPB_ENCODE_SKIPUNKNOWN \<noteq> 0)
       \<and> (ext L = UPB_MSGEXT_NONE \<or> exts msg = [])
       \<and> (\<forall>f \<in> set (fields' L). absent h msg (subs L) f)
       \<longrightarrow> encode_message_impl h (initial opts arena) msg l = Inr (initial opts arena, 0)
           \<and> upb_encode_ex h msg l opts arena = Some (Static_ch, 0, []))
   \<and> (\<forall>p n m. upb_encode_ex h msg l opts arena = Some (p, n, m)
       \<longrightarrow> (p = NULL) = (\<exists>x. encode_message_impl h (initial opts arena) msg l = Inl x))
   \<and> Static_ch \<noteq> NULL"
proof (intro conjI allI impI)
  fix e' sz
  assume "encode_message_impl h (initial opts arena) msg l = Inr (e', sz) \<and> written e' = []"
  then show "upb_encode_ex h msg l opts arena = Some (Static_ch, 0, buf e')"
    by (simp add: upb_encode_ex_initial written_def)
next
  assume a: "layouts h l = Some L
       \<and> (unknown msg = None \<or> unknown msg = Some [] \<or> opts AND UPB_ENCODE_SKIPUNKNOWN \<noteq> 0)
       \<and> (ext L = UPB_MSGEXT_NONE \<or> exts msg = [])
       \<and> (\<forall>f \<in> set (fields' L). absent h msg (subs L) f)"
  have o: "options (initial opts arena) = opts" by (simp add: initial_def)
  from a show r: "encode_message_impl h (initial opts arena) msg l = Inr (initial opts arena, 0)"
    by (intro encode_message_nothing [where L = L]) (simp_all add: o)
  show "upb_encode_ex h msg l opts arena = Some (Static_ch, 0, [])"
    by (simp add: upb_encode_ex_initial r) (simp add: initial_def)
next
  fix p n m
  assume "upb_encode_ex h msg l opts arena = Some (p, n, m)"
  then show "(p = NULL) = (\<exists>x. encode_message_impl h (initial opts arena) msg l = Inl x)"
    by (auto simp: upb_encode_ex_initial split: sum.splits error.splits prod.splits if_splits)
qed simp

theorem empty_message_placeholder_witness:
  "upb_encode_ex little_endian_host (msg1 (VArr (Some []))) 4 0 \<lparr>calls = 0, grant = (\<lambda>k n. False)\<rparr>
     = Some (Static_ch, 0, [])
   \<and> encode_shouldencode (msg1 (VArr (Some []))) []
        (field_at8 1 UPB_DESCRIPTOR_TYPE_INT32 UPB_MODE_ARRAY True UPB_REP_8BYTE) = Inr True"
proof -
  let ?L = "layout1 [] (field_at8 1 UPB_DESCRIPTOR_TYPE_INT32 UPB_MODE_ARRAY True UPB_REP_8BYTE)"
  have h: "layouts little_endian_host 4 = Some ?L
       \<and> (unknown (msg1 (VArr (Some []))) = None \<or> unknown (msg1 (VArr (Some []))) = Some []
           \<or> (0::u32) AND UPB_ENCODE_SKIPUNKNOWN \<noteq> 0)
       \<and> (ext ?L = UPB_MSGEXT_NONE \<or> exts (msg1 (VArr (Some []))) = [])
       \<and> (\<forall>f \<in> set (fields' ?L). absent little_endian_host (msg1 (VArr (Some []))) (subs ?L) f)"
    by (simp add: ex_defs read_defs bind_def absent_def holds_nothing_def)
  have s: "encode_shouldencode (msg1 (VArr (Some []))) []
        (field_at8 1 UPB_DESCRIPTOR_TYPE_INT32 UPB_MODE_ARRAY True UPB_REP_8BYTE) = Inr True"
    by (simp add: ex_defs read_defs bind_def)
  from empty_message_placeholder [of little_endian_host 0 "\<lparr>calls = 0, grant = (\<lambda>k n. False)\<rparr>"
      "msg1 (VArr (Some []))" 4 ?L] h s
  show ?thesis by blast
qed



section \<open>The depth counter is restored\<close>

text \<open>C10: on normal return from the message emitter and from every field
  emitter (a whole field, a scalar field with its sub-message or group, a
  repeated field, a map field) the remaining-depth counter of the context
  equals its value on entry.\<close>

theorem depth_restored:
  "(\<forall>e' sz. encode_message_impl h e msg m = Inr (e', sz) \<longrightarrow> depth e' = depth e)
   \<and> (\<forall>e'. encode_field_impl h e sl sbs f = Inr e' \<longrightarrow> depth e' = depth e)
   \<and> (\<forall>e'. encode_scalar_impl h e fm sbs f = Inr e' \<longrightarrow> depth e' = depth e)
   \<and> (\<forall>e'. encode_array_impl h e sl sbs f = Inr e' \<longrightarrow> depth e' = depth e)
   \<and> (\<forall>e'. encode_map_impl h e sl sbs f = Inr e' \<longrightarrow> depth e' = depth e)"
  using encode_depth [of e "depth e", OF refl]
  by (simp add: ensures_def)

lemma submsg_eval:
  "encode_scalar_impl little_endian_host (start 0 2) (VMsg (Some (msg1 (V4 0)))) [2]
     (field_at8 1 UPB_DESCRIPTOR_TYPE_MESSAGE UPB_MODE_SCALAR False UPB_REP_8BYTE)
   = Inr \<lparr>ptr = 126, buf = replicate 126 None @ [Some 0x0a, Some 0],
          alloc = \<lparr>calls = 1, grant = (\<lambda>k n. True)\<rparr>, options = 0, depth = 2\<rparr>"
proof -
  have e: "encode_message_impl little_endian_host s (msg1 (V4 0)) 2 = Inr (s, 0)" for s
    by (rule encode_message_empty [where L = "layout1 [] (field_at8 2 UPB_DESCRIPTOR_TYPE_INT32 UPB_MODE_SCALAR False UPB_REP_4BYTE)"])
       (simp_all add: ex_defs read_defs bind_def)
  show ?thesis
    apply (simp add: encode_scalar_impl.simps e field_at8_def read_defs bind_def)
    apply (simp add: ex_defs wire_defs prim_defs varint64_examples buf_simps)
    done
qed

theorem depth_restored_witness:
  "\<exists>e'. encode_scalar_impl little_endian_host (start 0 2) (VMsg (Some (msg1 (V4 0)))) [2]
          (field_at8 1 UPB_DESCRIPTOR_TYPE_MESSAGE UPB_MODE_SCALAR False UPB_REP_8BYTE) = Inr e'
        \<and> written e' = [Some 0x0a, Some 0] \<and> depth e' = depth (start 0 2)"
proof (intro exI conjI)
  show "encode_scalar_impl little_endian_host (start 0 2) (VMsg (Some (msg1 (V4 0)))) [2]
          (field_at8 1 UPB_DESCRIPTOR_TYPE_MESSAGE UPB_MODE_SCALAR False UPB_REP_8BYTE)
        = Inr \<lparr>ptr = 126, buf = replicate 126 None @ [Some 0x0a, Some 0],
          alloc = \<lparr>calls = 1, grant = (\<lambda>k n. True)\<rparr>, options = 0, depth = 2\<rparr>"
    by (rule submsg_eval)
  then show "depth \<lparr>ptr = 126, buf = replicate 126 None @ [Some 0x0a, Some 0],
          alloc = \<lparr>calls = 1, grant = (\<lambda>k n. True)\<rparr>, options = 0, depth = 2\<rparr> = depth (start 0 2)"
    by (rule depth_restored [THEN conjunct2, THEN conjunct2, THEN conjunct1, rule_format])
  show "written \<lparr>ptr = 126, buf = replicate 126 None @ [Some 0x0a, Some 0],
          alloc = \<lparr>calls = 1, grant = (\<lambda>k n. True)\<rparr>, options = 0, depth = 2\<rparr> = [Some 0x0a, Some 0]"
    by (simp add: written_def)
qed



section \<open>Sign extension of \<^verbatim>\<open>int32\<close>\<close>

text \<open>C3: the scalar emitter, given a negative \<^verbatim>\<open>int32\<close> in a field of type INT32 or
  ENUM, encodes its sign extension to 64 bits (the value \<open>2 ^ 64 + sint w\<close>), whose
  varint is 10 bytes long, and it does emit: from a state where writing cannot fail
  it returns normally, having written the tag of the field followed by those 10
  bytes.  In particular \<^verbatim>\<open>int32\<close> field 1 with value -1 is encoded by
  \<open>upb_encode_ex\<close> as the 11 bytes \<^verbatim>\<open>08 ff ff ff ff ff ff ff ff ff 01\<close>.\<close>

theorem int32_sign_extended:
  "((descriptortype f = UPB_DESCRIPTOR_TYPE_INT32 \<or> descriptortype f = UPB_DESCRIPTOR_TYPE_ENUM)
      \<and> sint w < 0 \<and> ok e
     \<longrightarrow> val_int32 (V4 w) = Inr (scast w)
       \<and> uint (scast w :: u64) = 2 ^ 64 + sint w
       \<and> length (encode_varint64 (scast w)) = 10
       \<and> emits e (map Some (encode_varint64 (ucast (push_bit 3 (number f) OR UPB_WIRE_TYPE_VARINT))
                              @ encode_varint64 (scast w)))
           (encode_scalar_impl h e (V4 w) sbs f))
   \<and> (\<exists>p m. upb_encode_ex little_endian_host (msg1 (V4 (- 1))) 1 0 grant_all = Some (Buffer p, 11, m)
         \<and> returned_bytes (Buffer p, 11, m)
           = map Some [0x08, 0xff, 0xff, 0xff, 0xff, 0xff, 0xff, 0xff, 0xff, 0xff, 0x01])"
proof (intro conjI impI)
  assume a: "(descriptortype f = UPB_DESCRIPTOR_TYPE_INT32 \<or> descriptortype f = UPB_DESCRIPTOR_TYPE_ENUM)
      \<and> sint w < 0 \<and> ok e"
  show "val_int32 (V4 w) = Inr (scast w)" by (simp add: val_int32_def get_u32_def bind_def)
  from a show "uint (scast w :: u64) = 2 ^ 64 + sint w" by (simp add: uint_scast_neg)
  from a show "length (encode_varint64 (scast w)) = 10" by (simp add: length_encode_varint64_neg)
  from a have t: "descriptortype f = UPB_DESCRIPTOR_TYPE_INT32 \<or> descriptortype f = UPB_DESCRIPTOR_TYPE_ENUM"
    and o: "ok e" by simp_all
  have "emits e (map Some (encode_varint64 (ucast (push_bit 3 (number f) OR UPB_WIRE_TYPE_VARINT)))
                 @ map Some (encode_varint64 (scast w)))
          (bind (encode_varint e (scast w)) (\<lambda>e1. encode_tag e1 (number f) UPB_WIRE_TYPE_VARINT))"
    by (rule emits_bind [OF encode_varint_emits [OF o]]) (rule encode_tag_emits)
  then show "emits e (map Some (encode_varint64 (ucast (push_bit 3 (number f) OR UPB_WIRE_TYPE_VARINT))
                              @ encode_varint64 (scast w)))
           (encode_scalar_impl h e (V4 w) sbs f)"
    by (simp add: int32_scalar_eq [OF t])
next
  show "\<exists>p m. upb_encode_ex little_endian_host (msg1 (V4 (- 1))) 1 0 grant_all = Some (Buffer p, 11, m)
         \<and> returned_bytes (Buffer p, 11, m)
           = map Some [0x08, 0xff, 0xff, 0xff, 0xff, 0xff, 0xff, 0xff, 0xff, 0xff, 0x01]"
    by (intro exI conjI, rule S2_eval) (simp add: returned_bytes_def)
qed

theorem int32_sign_extended_witness:
  "\<exists>e'. encode_scalar_impl little_endian_host (start 0 64) (V4 (- 1)) []
           (field_at8 1 UPB_DESCRIPTOR_TYPE_INT32 UPB_MODE_SCALAR False UPB_REP_4BYTE) = Inr e'
        \<and> written e' = map Some [0x08, 0xff, 0xff, 0xff, 0xff, 0xff, 0xff, 0xff, 0xff, 0xff, 0x01]
        \<and> length (encode_varint64 (scast (- 1 :: u32))) = 10"
proof -
  have s: "sint (- 1 :: u32) < 0" by simp
  have t: "descriptortype (field_at8 1 UPB_DESCRIPTOR_TYPE_INT32 UPB_MODE_SCALAR False UPB_REP_4BYTE)
            = UPB_DESCRIPTOR_TYPE_INT32" by (simp add: field_at8_def)
  have n: "number (field_at8 1 UPB_DESCRIPTOR_TYPE_INT32 UPB_MODE_SCALAR False UPB_REP_4BYTE) = 1"
    by (simp add: field_at8_def)
  have w: "written (start 0 64) = []" by (simp add: written_def start_def)
  from int32_sign_extended [of "field_at8 1 UPB_DESCRIPTOR_TYPE_INT32 UPB_MODE_SCALAR False UPB_REP_4BYTE"
      "- 1" "start 0 64" little_endian_host "[]"] s t ok_start [of 0 64]
  have "length (encode_varint64 (scast (- 1 :: u32))) = 10
     \<and> emits (start 0 64) (map Some (encode_varint64 (ucast (push_bit 3 (1::u32) OR UPB_WIRE_TYPE_VARINT))
                              @ encode_varint64 (scast (- 1 :: u32))))
           (encode_scalar_impl little_endian_host (start 0 64) (V4 (- 1)) []
             (field_at8 1 UPB_DESCRIPTOR_TYPE_INT32 UPB_MODE_SCALAR False UPB_REP_4BYTE))"
    by (simp only: n) blast
  then show ?thesis
    by (simp add: emits_def w wire_defs varint64_examples) blast
qed



section \<open>Repeated fixed-width fields and the byte order of the host\<close>

text \<open>C8: the emitter for repeated fields of fixed-width elements copies every element
  as it lies in the memory of the host, in one block for a packed field and element by
  element (each followed by the tag) otherwise; no element is byte-swapped.  On a
  big-endian host the bytes of an element are therefore the reverse of its
  little-endian representation: a packed \<^verbatim>\<open>fixed32\<close> field 1 holding the one element 1
  is encoded as \<^verbatim>\<open>0a 04 00 00 00 01\<close>, where the wire format has \<^verbatim>\<open>01 00 00 00\<close> for
  the element.\<close>

theorem fixedarray_copies_host_memory:
  "(ok e \<longrightarrow>
      emits e (concat (map (\<lambda>w. (if tag = 0 then [] else map Some (encode_varint64 (ucast tag)))
                                  @ map Some (mem_bytes32 h w)) ws))
        (encode_fixedarray_impl h e (map V4 ws) 4 tag)
    \<and> emits e (concat (map (\<lambda>d. (if tag = 0 then [] else map Some (encode_varint64 (ucast tag)))
                                  @ map Some (mem_bytes64 h d)) ds))
        (encode_fixedarray_impl h e (map V8 ds) 8 tag))
   \<and> (big_endian h \<longrightarrow> mem_bytes32 h w = rev (le_bytes32 w) \<and> mem_bytes64 h d = rev (le_bytes64 d))
   \<and> upb_encode_ex big_endian_host (msg1 (VArr (Some [V4 1]))) 5 0 grant_all
       = Some (Buffer 122, 6, replicate 122 None @ map Some [0x0a, 0x04, 0, 0, 0, 1])
   \<and> le_bytes32 1 = [1, 0, 0, 0]"
proof (intro conjI impI)
  assume o: "ok e"
  from fixedarray_emits [where tag = tag, OF map_result_elem_mem32 o, of h ws]
  show "emits e (concat (map (\<lambda>w. (if tag = 0 then [] else map Some (encode_varint64 (ucast tag)))
                                  @ map Some (mem_bytes32 h w)) ws))
        (encode_fixedarray_impl h e (map V4 ws) 4 tag)"
    by (simp add: comp_def)
  from fixedarray_emits [where tag = tag, OF map_result_elem_mem64 o, of h ds]
  show "emits e (concat (map (\<lambda>d. (if tag = 0 then [] else map Some (encode_varint64 (ucast tag)))
                                  @ map Some (mem_bytes64 h d)) ds))
        (encode_fixedarray_impl h e (map V8 ds) 8 tag)"
    by (simp add: comp_def)
next
  assume "big_endian h"
  then show "mem_bytes32 h w = rev (le_bytes32 w)" "mem_bytes64 h d = rev (le_bytes64 d)"
    by (simp_all add: mem_bytes32_def mem_bytes64_def)
next
  show "upb_encode_ex big_endian_host (msg1 (VArr (Some [V4 1]))) 5 0 grant_all
       = Some (Buffer 122, 6, replicate 122 None @ map Some [0x0a, 0x04, 0, 0, 0, 1])"
    by (rule packed_fixed32_big_endian_eval)
  show "le_bytes32 1 = [1, 0, 0, 0]" by (simp add: le_bytes32_def)
qed

theorem fixedarray_copies_host_memory_witness:
  "\<exists>e'. encode_fixedarray_impl big_endian_host (start 0 64) [V4 1] 4 0 = Inr e'
        \<and> written e' = map Some [0, 0, 0, 1]"
proof -
  have b: "big_endian big_endian_host" by (simp add: big_endian_host_def)
  have w: "written (start 0 64) = []" by (simp add: written_def start_def)
  from fixedarray_copies_host_memory [of "start 0 64" 0 big_endian_host "[1]" "[]" 1 0] ok_start [of 0 64] b
  have a: "emits (start 0 64) (concat (map (\<lambda>w. (if (0::u32) = 0 then [] else map Some (encode_varint64 (ucast (0::u32))))
                                  @ map Some (mem_bytes32 big_endian_host w)) [1]))
          (encode_fixedarray_impl big_endian_host (start 0 64) (map V4 [1]) 4 0)"
    and m: "mem_bytes32 big_endian_host 1 = rev (le_bytes32 1)"
    and l: "le_bytes32 1 = [1, 0, 0, 0]"
    by blast+
  from a have "emits (start 0 64) (map Some [0, 0, 0, 1])
          (encode_fixedarray_impl big_endian_host (start 0 64) [V4 1] 4 0)"
    by (simp add: m l)
  then show ?thesis
    by (auto simp: emits_def w)
qed



section \<open>Failure of the top-level entry\<close>






section \<open>The depth budget\<close>






section \<open>The encoding of a packed repeated field\<close>




end
